theory Spec2Isabelle
  imports Complex_Main "HOL-Library.Sublist" "HOL-Library.Log_Nat"
begin

section \<open>Strings as the scripts use them\<close>

text \<open>
  Python strings are modelled as \<open>string\<close> (lists of 8-bit characters), restricted to
  ASCII: \<open>str.lower\<close> maps \<open>A..Z\<close> to \<open>a..z\<close>, the regular expression class
  \<open>\w\<close> is \<open>[A-Za-z0-9_]\<close>, and whitespace is what \<open>str.isspace\<close> accepts below 128:
  the characters 9 to 13, 28 to 31 and the space.
  The Python test \<open>a in b\<close> on strings is contiguous containment, \<^const>\<open>sublist\<close>.
\<close>

definition lower_char :: "char \<Rightarrow> char" where
  "lower_char c =
     (let n = (of_char c :: nat) in if 65 \<le> n \<and> n \<le> 90 then char_of (n + 32) else c)"

definition lower :: "string \<Rightarrow> string" where
  "lower s = map lower_char s"

definition is_word_char :: "char \<Rightarrow> bool" where
  "is_word_char c =
     (let n = (of_char c :: nat)
      in (48 \<le> n \<and> n \<le> 57) \<or> (65 \<le> n \<and> n \<le> 90) \<or> n = 95 \<or> (97 \<le> n \<and> n \<le> 122))"

definition is_space :: "char \<Rightarrow> bool" where
  "is_space c =
     (let n = (of_char c :: nat) in (9 \<le> n \<and> n \<le> 13) \<or> (28 \<le> n \<and> n \<le> 31) \<or> n = 32)"

text \<open>
  \<open>runs p acc s\<close>: the maximal non-empty runs of characters satisfying \<open>p\<close> in \<open>s\<close>,
  left to right; \<open>acc\<close> is the run being read. With \<open>p = is_word_char\<close> this is
  \<open>re.findall(r'\b\w+\b', s)\<close>; with \<open>p = not is_space\<close> it is \<open>s.split()\<close>.
\<close>

fun runs :: "(char \<Rightarrow> bool) \<Rightarrow> string \<Rightarrow> string \<Rightarrow> string list" where
  "runs p acc [] = (if acc = [] then [] else [acc])"
| "runs p acc (c # cs) =
     (if p c then runs p (acc @ [c]) cs
      else (if acc = [] then [] else [acc]) @ runs p [] cs)"

definition findall_words :: "string \<Rightarrow> string list" where
  "findall_words s = runs is_word_char [] s"

definition split_ws :: "string \<Rightarrow> string list" where
  "split_ws s = runs (\<lambda>c. \<not> is_space c) [] s"

definition strip :: "string \<Rightarrow> string" where
  "strip s = rev (dropWhile is_space (rev (dropWhile is_space s)))"

section \<open>Floating point and rounding\<close>

text \<open>
  A Python \<open>float\<close> (and a PostgreSQL \<open>float8\<close>) is a binary64 number, here the
  rational it stands for. \<open>fl q\<close> is the binary64 number nearest to \<open>q\<close>, ties to
  the even significand of 53 bits; the exponent is not bounded (no overflow, no
  subnormal numbers: the quantities here are counts and percentages). Each arithmetic
  operation gives the exact result rounded by \<open>fl\<close>.
\<close>

definition round_half_even :: "rat \<Rightarrow> int" where
  "round_half_even q =
     (let f = \<lfloor>q\<rfloor>; r = q - of_int f
      in if r < 1 / 2 then f else if 1 / 2 < r then f + 1 else if even f then f else f + 1)"

definition pow2 :: "int \<Rightarrow> rat" where
  "pow2 k = (if 0 \<le> k then 2 ^ nat k else 1 / 2 ^ nat (- k))"

text \<open>For \<open>a > 0\<close>, the exponent \<open>e\<close> with \<open>2^e \<le> a < 2^(e+1)\<close>.\<close>

definition ilog2 :: "rat \<Rightarrow> int" where
  "ilog2 a = (case quotient_of a of (p, r) \<Rightarrow>
     (let d = bitlen p - bitlen r in if pow2 d \<le> a then d else d - 1))"

definition fl :: "rat \<Rightarrow> rat" where
  "fl q = (if q = 0 then 0
           else let a = \<bar>q\<bar>; ulp = pow2 (ilog2 a - 52)
                in sgn q * of_int (round_half_even (a / ulp)) * ulp)"

definition fdiv :: "rat \<Rightarrow> rat \<Rightarrow> rat" where
  "fdiv a b = fl (a / b)"

definition fmul :: "rat \<Rightarrow> rat \<Rightarrow> rat" where
  "fmul a b = fl (a * b)"

definition fadd :: "rat \<Rightarrow> rat \<Rightarrow> rat" where
  "fadd a b = fl (a + b)"

text \<open>
  Python's \<open>round(x, n)\<close> of a float: the exact value of \<open>x\<close> rounded to \<open>n\<close>
  decimals, ties to the even neighbour, and the float nearest to that decimal.
\<close>

definition py_round :: "rat \<Rightarrow> nat \<Rightarrow> rat" where
  "py_round x n = fl (of_int (round_half_even (x * 10 ^ n)) / 10 ^ n)"

section \<open>The query resolver (diagnose\_search.py)\<close>

subsection \<open>Step 1: tokens\<close>

text \<open>
  \<open>tokens = [t.lower() for t in re.findall(r'\b\w+\b', query) if len(t) > 2]\<close>
\<close>

definition tokenize :: "string \<Rightarrow> string list" where
  "tokenize query = map lower (filter (\<lambda>t. length t > 2) (findall_words query))"

subsection \<open>Step 2: terminology trace\<close>

text \<open>
  A row as \<open>step_trace_terminology\<close> fetches it: \<open>SELECT user_term, canonical_term,
  source, usage_count FROM terminology_map\<close>, with no filter on \<open>is_active\<close>. The code
  guards each field against NULL (\<open>mapping['user_term'] or ''\<close>), so they are optional.
\<close>

record trace_row =
  tr_user_term :: "string option"
  tr_canonical_term :: "string option"
  tr_usage_count :: "int option"

record matched_mapping =
  mm_user_term :: "string option"
  mm_canonical_term :: "string option"
  matched_token :: string
  mm_usage_count :: int

record trace_result =
  total_mappings_available :: nat
  matched_mappings :: "matched_mapping list"
  unmatched_tokens :: "string set"
  mapping_coverage :: rat

definition or_empty :: "string option \<Rightarrow> string" where
  "or_empty x = (case x of None \<Rightarrow> [] | Some s \<Rightarrow> s)"

text \<open>The condition of the inner loop, for one token and one mapping.\<close>

definition token_matches :: "trace_row \<Rightarrow> string \<Rightarrow> bool" where
  "token_matches m token =
     (let user_term = lower (or_empty (tr_user_term m));
          canonical_term = lower (or_empty (tr_canonical_term m))
      in token = user_term \<or> sublist token user_term \<or> sublist user_term token
         \<or> token = canonical_term)"

text \<open>The entry appended to \<open>matched_mappings\<close> for a mapping and the token that matched it.\<close>

definition mapping_entry :: "trace_row \<Rightarrow> string \<Rightarrow> matched_mapping" where
  "mapping_entry m token =
     \<lparr>mm_user_term = tr_user_term m,
      mm_canonical_term = tr_canonical_term m,
      matched_token = token,
      mm_usage_count = (case tr_usage_count m of None \<Rightarrow> 0 | Some n \<Rightarrow> n)\<rparr>"

text \<open>
  The outer loop over the mappings. The inner loop stops at the first token that
  matches (\<open>break\<close>), appends one entry and discards that token from the unmatched set.
\<close>

fun trace_loop ::
  "trace_row list \<Rightarrow> string list \<Rightarrow> matched_mapping list \<times> string set
     \<Rightarrow> matched_mapping list \<times> string set" where
  "trace_loop [] tokens st = st"
| "trace_loop (m # ms) tokens (matched, unmatched) =
     (case find (token_matches m) tokens of
        None \<Rightarrow> trace_loop ms tokens (matched, unmatched)
      | Some token \<Rightarrow>
          trace_loop ms tokens (matched @ [mapping_entry m token], unmatched - {token}))"

definition step_trace_terminology :: "trace_row list \<Rightarrow> string list \<Rightarrow> trace_result" where
  "step_trace_terminology all_mappings tokens =
     (let (matched, unmatched) = trace_loop all_mappings tokens ([], set tokens)
      in \<lparr>total_mappings_available = length all_mappings,
          matched_mappings = matched,
          unmatched_tokens = unmatched,
          mapping_coverage =
            py_round (fmul (fdiv (of_nat (length matched)) (of_nat (max (length tokens) 1)))
                           100) 1\<rparr>)"

section \<open>The terminology store (run\_terminology\_migration.py)\<close>

text \<open>
  A row of the table \<open>terminology_map\<close>. The generated \<open>id\<close> and the three timestamps
  are left out: no statement modelled here reads or writes them. \<open>map_type\<close>,
  \<open>user_term\<close> and \<open>canonical_term\<close> are \<open>NOT NULL\<close>; the other columns are
  nullable, so they hold options. \<open>confidence\<close> is a \<open>DECIMAL(3,2)\<close>: a decimal
  with two digits after the point, below 10 in absolute value.
\<close>

record tm_row =
  map_type :: string
  user_term :: string
  canonical_term :: string
  confidence :: "rat option"
  source :: "string option"
  usage_count :: "int option"
  is_active :: "bool option"
  is_verified :: "bool option"

type_synonym store = "tm_row list"

text \<open>
  An \<open>INSERT ... VALUES ... ON CONFLICT (target) DO NOTHING\<close> of one row. A column the
  statement does not list is \<open>None\<close> and takes the column's default.
\<close>

record insert_stmt =
  i_map_type :: "string option"
  i_user_term :: "string option"
  i_canonical_term :: "string option"
  i_confidence :: "rat option"
  i_source :: "string option"
  i_usage_count :: "int option"
  i_is_active :: "bool option"
  i_is_verified :: "bool option"
  on_conflict :: "string list"

datatype sql_error =
  NoConflictTarget | NumericOverflow | NotNullViolation | CheckViolation | UniqueViolation
  | InFailedSqlTransaction

definition map_types :: "string list" where
  "map_types = [''content_type'', ''state'', ''topic'', ''competitor'', ''persona'', ''feature'']"

definition sources :: "string list" where
  "sources = [''manual'', ''ai_suggested'', ''log_analysis'', ''seed'']"

text \<open>The column defaults of the \<open>CREATE TABLE\<close>: a column without one defaults to NULL.\<close>

definition default_confidence :: "rat option" where "default_confidence = Some 1"
definition default_source :: "string option" where "default_source = Some ''manual''"
definition default_usage_count :: "int option" where "default_usage_count = Some 0"
definition default_is_active :: "bool option" where "default_is_active = Some True"
definition default_is_verified :: "bool option" where "default_is_verified = Some False"

definition or_default :: "'a option \<Rightarrow> 'a option \<Rightarrow> 'a option" where
  "or_default given dflt = (case given of None \<Rightarrow> dflt | Some v \<Rightarrow> Some v)"

text \<open>The natural key, \<open>UNIQUE(map_type, user_term)\<close>; the comparison is exact.\<close>

definition natural_key :: "tm_row \<Rightarrow> string \<times> string" where
  "natural_key r = (map_type r, user_term r)"

text \<open>
  The unique constraints an \<open>ON CONFLICT\<close> target can name: the primary key and the
  natural key. PostgreSQL rejects a target that matches no unique constraint.
\<close>

definition conflict_target_ok :: "string list \<Rightarrow> bool" where
  "conflict_target_ok cols =
     (set cols = {''map_type'', ''user_term''} \<or> set cols = {''id''})"

text \<open>
  A value assigned to a \<open>DECIMAL(3,2)\<close> column is rounded to two decimals, halves
  away from zero; a rounded value of 10 or more in absolute value overflows the column.
\<close>

definition numeric_3_2 :: "rat \<Rightarrow> rat" where
  "numeric_3_2 c = sgn c * of_int \<lfloor>\<bar>c\<bar> * 100 + 1 / 2\<rfloor> / 100"

text \<open>
  The row the statement proposes, after defaults, or the error it raises: the overflow
  of \<open>confidence\<close>, then \<open>NOT NULL\<close>, then the \<open>CHECK\<close>s (which a NULL passes).
\<close>

definition proposed_row :: "insert_stmt \<Rightarrow> sql_error + tm_row" where
  "proposed_row st =
     (let conf = or_default (map_option numeric_3_2 (i_confidence st)) default_confidence;
          src = or_default (i_source st) default_source
      in if (case conf of None \<Rightarrow> False | Some c \<Rightarrow> 10 \<le> \<bar>c\<bar>) then Inl NumericOverflow
         else case (i_map_type st, i_user_term st, i_canonical_term st) of
           (Some mt, Some ut, Some ct) \<Rightarrow>
             (if mt \<notin> set map_types then Inl CheckViolation
              else if (case conf of None \<Rightarrow> False | Some c \<Rightarrow> \<not> (0 \<le> c \<and> c \<le> 1))
                then Inl CheckViolation
              else if (case src of None \<Rightarrow> False | Some x \<Rightarrow> x \<notin> set sources)
                then Inl CheckViolation
              else Inr \<lparr>map_type = mt, user_term = ut, canonical_term = ct,
                        confidence = conf, source = src,
                        usage_count = or_default (i_usage_count st) default_usage_count,
                        is_active = or_default (i_is_active st) default_is_active,
                        is_verified = or_default (i_is_verified st) default_is_verified\<rparr>)
         | _ \<Rightarrow> Inl NotNullViolation)"

text \<open>
  Executing the statement on a store: an error leaves the store as it was; otherwise the
  result is the store and whether a row was inserted (what \<open>RETURNING id\<close> tells the
  caller). With the natural key as the target a conflicting row makes the statement do
  nothing; with the primary key as the target (a fresh \<open>id\<close> never conflicts) a second
  row with the same natural key is a unique violation.
\<close>

definition exec_insert :: "store \<Rightarrow> insert_stmt \<Rightarrow> sql_error + (store \<times> bool)" where
  "exec_insert s st =
     (if \<not> conflict_target_ok (on_conflict st) then Inl NoConflictTarget
      else case proposed_row st of
        Inl e \<Rightarrow> Inl e
      | Inr r \<Rightarrow>
          if natural_key r \<in> set (map natural_key s)
          then (if set (on_conflict st) = {''map_type'', ''user_term''}
                then Inr (s, False) else Inl UniqueViolation)
          else Inr (s @ [r], True))"

definition store_after :: "store \<Rightarrow> insert_stmt \<Rightarrow> store" where
  "store_after s st = (case exec_insert s st of Inl e \<Rightarrow> s | Inr (s', inserted) \<Rightarrow> s')"

subsection \<open>The seed loader\<close>

text \<open>
  One row of a seed statement:
  \<open>INSERT INTO terminology_map (map_type, user_term, canonical_term, source, is_verified,
  is_active) VALUES (mt, ut, ct, 'seed', true, true) ON CONFLICT (map_type, user_term) DO
  NOTHING\<close>.
\<close>

definition seed_stmt :: "string \<Rightarrow> string \<Rightarrow> string \<Rightarrow> insert_stmt" where
  "seed_stmt mt ut ct =
     \<lparr>i_map_type = Some mt, i_user_term = Some ut, i_canonical_term = Some ct,
      i_confidence = None, i_source = Some ''seed'', i_usage_count = None,
      i_is_active = Some True, i_is_verified = Some True,
      on_conflict = [''map_type'', ''user_term'']\<rparr>"

text \<open>The first seed statement of the migration, the 1-Pager variations.\<close>

definition seed_one_pager :: "insert_stmt list" where
  "seed_one_pager = map (\<lambda>ut. seed_stmt ''content_type'' ut ''1-Pager'')
     [''one pager'', ''one-pager'', ''onepager'', ''1 pager'', ''pager'', ''fact sheet'',
      ''factsheet'', ''datasheet'', ''data sheet'', ''sell sheet'', ''flyer'', ''flier'',
      ''brochure'', ''infographic'']"

text \<open>A multi-row statement inserts its rows one after the other.\<close>

definition run_inserts :: "store \<Rightarrow> insert_stmt list \<Rightarrow> store" where
  "run_inserts s sts = fold (\<lambda>st s'. store_after s' st) sts s"

subsection \<open>Suggested mappings (query\_popularity\_report.py, log\_analyzer.py)\<close>

text \<open>
  A suggestion as parsed from the completion service: a dictionary whose keys may be
  missing (\<open>suggestion.get('map_type', 'content_type')\<close> and so on).
\<close>

record suggestion =
  s_map_type :: "string option"
  s_user_term :: "string option"
  s_canonical_term :: "string option"
  s_confidence :: "rat option"

definition get_or :: "'a option \<Rightarrow> 'a \<Rightarrow> 'a" where
  "get_or x d = (case x of None \<Rightarrow> d | Some v \<Rightarrow> v)"

definition suggestion_stmt :: "suggestion \<Rightarrow> insert_stmt" where
  "suggestion_stmt sg =
     \<lparr>i_map_type = Some (get_or (s_map_type sg) ''content_type''),
      i_user_term = Some (lower (get_or (s_user_term sg) [])),
      i_canonical_term = Some (get_or (s_canonical_term sg) []),
      i_confidence = Some (get_or (s_confidence sg) (1 / 2)),
      i_source = Some ''log_analysis'', i_usage_count = None,
      i_is_active = Some False, i_is_verified = Some False,
      on_conflict = [''map_type'', ''user_term'']\<rparr>"

text \<open>
  The connection: the committed table, the table as the open transaction sees it, and
  whether the transaction has failed. psycopg2 opens a transaction at the first
  statement; after a statement fails every later statement of the transaction fails too,
  and \<open>commit\<close> of a failed transaction rolls it back.
\<close>

record conn =
  committed :: store
  pending :: store
  failed :: bool

definition execute :: "conn \<Rightarrow> insert_stmt \<Rightarrow> sql_error option \<times> bool \<times> conn" where
  "execute c st =
     (if failed c then (Some InFailedSqlTransaction, False, c)
      else case exec_insert (pending c) st of
        Inl e \<Rightarrow> (Some e, False, c\<lparr>failed := True\<rparr>)
      | Inr (s', inserted) \<Rightarrow> (None, inserted, c\<lparr>pending := s'\<rparr>))"

definition commit :: "conn \<Rightarrow> conn" where
  "commit c =
     (if failed c then c\<lparr>pending := committed c, failed := False\<rparr>
      else c\<lparr>committed := pending c\<rparr>)"

text \<open>
  \<open>insert_terminology_suggestions\<close>: each insert in its own \<open>try\<close>, a failure only
  printed; one \<open>commit\<close> after the loop. Returns the number of rows inserted.
\<close>

fun insert_loop :: "suggestion list \<Rightarrow> nat \<times> conn \<Rightarrow> nat \<times> conn" where
  "insert_loop [] st = st"
| "insert_loop (sg # sgs) (inserted, c) =
     (case execute c (suggestion_stmt sg) of
        (err, got_row, c') \<Rightarrow>
          insert_loop sgs (if err = None \<and> got_row then inserted + 1 else inserted, c'))"

definition insert_terminology_suggestions ::
  "conn \<Rightarrow> suggestion list \<Rightarrow> bool \<Rightarrow> nat \<times> conn" where
  "insert_terminology_suggestions c suggestions dry_run =
     (if suggestions = [] \<or> dry_run then (0, c)
      else case insert_loop suggestions (0, c) of (inserted, c') \<Rightarrow> (inserted, commit c'))"

subsection \<open>Step 6 of the resolver: auto-fix (diagnose\_search.py)\<close>

text \<open>
  A recommended fix of the diagnosis. \<open>fx_user_term\<close> and \<open>fx_standard_term\<close> are
  \<open>fix.get('specifics', {}).get(...)\<close>: \<open>None\<close> when \<open>specifics\<close> or the key is missing.
\<close>

record recommended_fix =
  fix_type :: "string option"
  fx_user_term :: "string option"
  fx_standard_term :: "string option"

record applied_fix =
  af_user_term :: string
  af_canonical_term :: string
  af_dry_run :: bool

datatype skip_reason = MissingTerm | Raised sql_error | NotSupported "string option"

record auto_fix_result =
  status :: string
  fixes_applied :: "applied_fix list"
  fixes_skipped :: "(recommended_fix \<times> skip_reason) list"
  total_applied :: nat

text \<open>
  The statement of the auto-fix:
  \<open>INSERT INTO terminology_map (user_term, canonical_term, source, usage_count) VALUES
  (user_term, standard_term, 'auto_diagnose', 0) ON CONFLICT (user_term) DO NOTHING\<close>.
\<close>

definition auto_fix_stmt :: "string \<Rightarrow> string \<Rightarrow> insert_stmt" where
  "auto_fix_stmt ut st =
     \<lparr>i_map_type = None, i_user_term = Some ut, i_canonical_term = Some st,
      i_confidence = None, i_source = Some ''auto_diagnose'', i_usage_count = Some 0,
      i_is_active = None, i_is_verified = None,
      on_conflict = [''user_term'']\<rparr>"

text \<open>Python's \<open>not x\<close> for an optional string: missing or empty.\<close>

definition falsy :: "string option \<Rightarrow> bool" where
  "falsy x = (case x of None \<Rightarrow> True | Some s \<Rightarrow> s = [])"

fun auto_fix_loop ::
  "bool \<Rightarrow> recommended_fix list \<Rightarrow> applied_fix list \<times> (recommended_fix \<times> skip_reason) list \<times> conn
     \<Rightarrow> applied_fix list \<times> (recommended_fix \<times> skip_reason) list \<times> conn" where
  "auto_fix_loop dry_run [] st = st"
| "auto_fix_loop dry_run (f # fs) (applied, skipped, c) =
     (if fix_type f = Some ''add_terminology'' then
        (if falsy (fx_user_term f) \<or> falsy (fx_standard_term f)
         then auto_fix_loop dry_run fs (applied, skipped @ [(f, MissingTerm)], c)
         else if dry_run
         then auto_fix_loop dry_run fs
                (applied @ [\<lparr>af_user_term = or_empty (fx_user_term f),
                              af_canonical_term = or_empty (fx_standard_term f),
                              af_dry_run = True\<rparr>], skipped, c)
         else (case execute c (auto_fix_stmt (or_empty (fx_user_term f))
                                             (or_empty (fx_standard_term f))) of
                 (Some e, got_row, c') \<Rightarrow>
                   auto_fix_loop dry_run fs (applied, skipped @ [(f, Raised e)], c')
               | (None, got_row, c') \<Rightarrow>
                   auto_fix_loop dry_run fs
                     (applied @ [\<lparr>af_user_term = or_empty (fx_user_term f),
                                   af_canonical_term = or_empty (fx_standard_term f),
                                   af_dry_run = False\<rparr>], skipped, commit c')))
      else auto_fix_loop dry_run fs (applied, skipped @ [(f, NotSupported (fix_type f))], c))"

text \<open>
  \<open>step_auto_fix\<close>; the diagnosis is \<open>None\<close> when it has no key \<open>recommended_fixes\<close>.
\<close>

definition step_auto_fix :: "conn \<Rightarrow> recommended_fix list option \<Rightarrow> bool \<Rightarrow> auto_fix_result \<times> conn" where
  "step_auto_fix c diagnosis dry_run =
     (case diagnosis of
        None \<Rightarrow> (\<lparr>status = ''skipped'', fixes_applied = [], fixes_skipped = [],
                   total_applied = 0\<rparr>, c)
      | Some fixes \<Rightarrow>
          (case auto_fix_loop dry_run fixes ([], [], c) of
             (applied, skipped, c') \<Rightarrow>
               (\<lparr>status = (if applied \<noteq> [] then ''applied'' else ''none_applicable''),
                 fixes_applied = applied, fixes_skipped = skipped,
                 total_applied = length applied\<rparr>, c')))"

section \<open>The popularity and gap analyzer (query\_popularity\_report.py)\<close>

text \<open>
  A row of \<open>ai_prompt_logs\<close>, with the columns the functions modelled here read.
  \<open>created_at\<close> is a time in seconds.
\<close>

record log_entry =
  le_query :: "string option"
  recommendations_count :: "int option"
  created_at :: int

subsection \<open>Section 2: content gap analysis\<close>

text \<open>
  An entry of the popularity ranking, with the fields the gap analysis reads.
  \<open>avg_recommendations\<close> is \<open>round(sum(recs) / len(recs), 2)\<close>, a float.
\<close>

record popularity_entry =
  pe_query :: string
  pe_count :: nat
  avg_recommendations :: rat

record content_item =
  ci_title :: "string option"
  ci_summary :: "string option"
  ci_tags :: "string option"

datatype severity = High | Medium | Low

record content_gap =
  cg_query :: string
  search_count :: nat
  cg_avg_recommendations :: rat
  content_matches_found :: nat
  gap_severity :: severity
  cg_gap_score :: rat
  flagged :: bool

definition LOW_RECOMMENDATION_THRESHOLD :: rat where
  "LOW_RECOMMENDATION_THRESHOLD = 2"

fun join_sp :: "string list \<Rightarrow> string" where
  "join_sp [] = []"
| "join_sp [x] = x"
| "join_sp (x # y # ys) = x @ '' '' @ join_sp (y # ys)"

text \<open>
  \<open>' '.join(filter(None, [title.lower(), summary.lower(), tags.lower()]))\<close>, each field
  replaced by the empty string when it is NULL.
\<close>

definition content_text :: "content_item \<Rightarrow> string" where
  "content_text item =
     join_sp (filter (\<lambda>x. x \<noteq> [])
       [lower (or_empty (ci_title item)), lower (or_empty (ci_summary item)),
        lower (or_empty (ci_tags item))])"

definition content_matches :: "string list \<Rightarrow> string \<Rightarrow> nat" where
  "content_matches content_texts query =
     (let significant_words = filter (\<lambda>w. length w > 2) (split_ws query)
      in length (filter (\<lambda>text. \<exists>word \<in> set significant_words. sublist word text)
                        content_texts))"

text \<open>The \<open>if\<close>/\<open>elif\<close> chain of the severity; \<open>None\<close> is the final \<open>continue\<close>.\<close>

definition severity_of :: "rat \<Rightarrow> nat \<Rightarrow> nat \<Rightarrow> severity option" where
  "severity_of avg_recs matches cnt =
     (if avg_recs = 0 then Some High
      else if avg_recs < LOW_RECOMMENDATION_THRESHOLD then Some Medium
      else if matches < 3 \<and> cnt \<ge> 3 then Some Low
      else None)"


definition gap_score_float :: "nat \<Rightarrow> rat \<Rightarrow> rat" where
  "gap_score_float cnt avg_recs = fmul (fl (of_nat cnt)) (fdiv 1 (fadd avg_recs (fl (1 / 10))))"

text \<open>The body of the loop for one entry; \<open>None\<close> when the entry is skipped.\<close>

definition gap_of :: "string list \<Rightarrow> popularity_entry \<Rightarrow> content_gap option" where
  "gap_of content_texts entry =
     (if pe_count entry < 2 then None
      else let avg_recs = avg_recommendations entry;
               matches = content_matches content_texts (pe_query entry)
           in case severity_of avg_recs matches (pe_count entry) of
                None \<Rightarrow> None
              | Some sev \<Rightarrow>
                  Some \<lparr>cg_query = pe_query entry, search_count = pe_count entry,
                        cg_avg_recommendations = avg_recs, content_matches_found = matches,
                        gap_severity = sev,
                        cg_gap_score = py_round (gap_score_float (pe_count entry) avg_recs) 2,
                        flagged = False\<rparr>)"

text \<open>
  The gaps in ranking order, then \<open>gaps.sort(key=gap_score, reverse=True)\<close>: a stable
  sort, largest score first.
\<close>

definition generate_content_gap_analysis ::
  "popularity_entry list \<Rightarrow> content_item list \<Rightarrow> content_gap list" where
  "generate_content_gap_analysis popularity_ranking content_inventory =
     (let content_texts = map content_text content_inventory
      in sort_key (\<lambda>g. - cg_gap_score g)
           (List.map_filter (gap_of content_texts) popularity_ranking))"

subsection \<open>Section 4: terminology mining\<close>

definition stopwords :: "string list" where
  "stopwords =
     [''the'', ''a'', ''an'', ''and'', ''or'', ''but'', ''in'', ''on'', ''at'', ''to'', ''for'',
      ''of'', ''with'', ''by'', ''from'', ''is'', ''are'', ''was'', ''were'', ''be'', ''been'',
      ''has'', ''have'', ''had'', ''do'', ''does'', ''did'', ''will'', ''would'', ''could'',
      ''should'', ''may'', ''might'', ''can'', ''shall'', ''not'', ''no'', ''nor'',
      ''it'', ''its'', ''this'', ''that'', ''these'', ''those'', ''i'', ''me'', ''my'', ''we'',
      ''our'', ''you'', ''your'', ''he'', ''she'', ''they'', ''them'', ''their'', ''what'',
      ''which'', ''who'', ''when'', ''where'', ''why'', ''how'', ''all'', ''each'', ''every'',
      ''both'', ''few'', ''more'', ''most'', ''other'', ''some'', ''such'', ''any'',
      ''show'', ''me'', ''find'', ''get'', ''give'', ''about'', ''like'', ''need'',
      ''want'', ''looking'', ''search'', ''content'', ''schoolinks'', ''schoolink'']"

text \<open>
  \<open>existing_mappings\<close> is the dictionary of the active mappings, map type to
  (user term to canonical term), here the lists of its items. \<open>mapped_terms\<close> collects
  every key and every value of the inner dictionaries, lowercased.
\<close>

type_synonym mappings = "(string \<times> (string \<times> string) list) list"

definition mapped_terms :: "mappings \<Rightarrow> string list" where
  "mapped_terms existing_mappings =
     concat (map (\<lambda>(mt, type_mappings).
                    map (\<lambda>(k, v). lower k) type_mappings @ map (\<lambda>(k, v). lower v) type_mappings)
                 existing_mappings)"

text \<open>
  \<open>term_counter\<close> (a \<open>Counter\<close>) and \<open>term_examples\<close> (a \<open>defaultdict(list)\<close>) as the
  lists of their items, in insertion order.
\<close>

fun counter_incr :: "'k \<Rightarrow> ('k \<times> nat) list \<Rightarrow> ('k \<times> nat) list" where
  "counter_incr t [] = [(t, 1)]"
| "counter_incr t ((k, n) # kvs) =
     (if k = t then (k, n + 1) # kvs else (k, n) # counter_incr t kvs)"

fun add_example ::
  "string \<Rightarrow> string \<Rightarrow> (string \<times> string list) list \<Rightarrow> (string \<times> string list) list" where
  "add_example q t [] = [(t, [q])]"
| "add_example q t ((k, qs) # kvs) =
     (if k = t then (k, if length qs < 3 then qs @ [q] else qs) # kvs
      else (k, qs) # add_example q t kvs)"

type_synonym mining_state = "(string \<times> nat) list \<times> (string \<times> string list) list"

definition note_term :: "string \<Rightarrow> string \<Rightarrow> mining_state \<Rightarrow> mining_state" where
  "note_term q t st = (case st of (term_counter, term_examples) \<Rightarrow>
     (counter_incr t term_counter, add_example q t term_examples))"

fun bigrams :: "string list \<Rightarrow> string list" where
  "bigrams (a # b # ws) = (a @ '' '' @ b) # bigrams (b # ws)"
| "bigrams ws = []"

definition unigram_ok :: "string list \<Rightarrow> string \<Rightarrow> bool" where
  "unigram_ok mapped w = (length w > 2 \<and> w \<notin> set stopwords \<and> w \<notin> set mapped)"

definition bigram_ok :: "string list \<Rightarrow> string \<Rightarrow> bool" where
  "bigram_ok mapped b =
     (b \<notin> set mapped \<and> \<not> (\<forall>w \<in> set (split_ws b). w \<in> set stopwords))"

text \<open>The body of the loop over the logs: the unigrams of the query, then its bigrams.\<close>

definition mine_log :: "string list \<Rightarrow> log_entry \<Rightarrow> mining_state \<Rightarrow> mining_state" where
  "mine_log mapped lg st =
     (let query = lower (strip (or_empty (le_query lg)));
          st1 = fold (\<lambda>word st'. let w = lower (strip word)
                                  in if unigram_ok mapped w then note_term query w st' else st')
                     (split_ws query) st;
          query_words = split_ws query
      in fold (\<lambda>bigram st'. if bigram_ok mapped bigram then note_term query bigram st' else st')
              (bigrams query_words) st1)"

text \<open>
  \<open>Counter.most_common(n)\<close>: the items by decreasing count, items of equal count in
  insertion order, cut at \<open>n\<close>.
\<close>

definition most_common :: "nat \<Rightarrow> ('k \<times> nat) list \<Rightarrow> ('k \<times> nat) list" where
  "most_common n term_counter = take n (sort_key (\<lambda>(t, c). - int c) term_counter)"

record unmapped_term =
  um_term :: string
  um_count :: nat
  example_queries :: "string set"

text \<open>
  Part A of \<open>generate_terminology_suggestions\<close>, the list \<open>unmapped_terms\<close> of its
  result. \<open>list(set(term_examples[term]))[:3]\<close> is modelled as the set of the examples
  (there are at most three). Part B only passes the list to the completion service.
\<close>

definition generate_terminology_suggestions ::
  "log_entry list \<Rightarrow> mappings \<Rightarrow> unmapped_term list" where
  "generate_terminology_suggestions logs existing_mappings =
     (let mapped = mapped_terms existing_mappings;
          (term_counter, term_examples) = fold (mine_log mapped) logs ([], []);
          unmapped_terms =
            map (\<lambda>(t, c). \<lparr>um_term = t, um_count = c,
                            example_queries =
                              set (case map_of term_examples t of None \<Rightarrow> [] | Some qs \<Rightarrow> qs)\<rparr>)
                (filter (\<lambda>(t, c). c \<ge> 2) (most_common 100 term_counter))
      in take 50 unmapped_terms)"

text \<open>
  Every unigram and bigram of the raw queries, before any filter: the occurrences a term
  can be counted from.
\<close>

definition raw_terms :: "log_entry list \<Rightarrow> string list" where
  "raw_terms logs =
     concat (map (\<lambda>lg. let query = lower (strip (or_empty (le_query lg)))
                         in split_ws query @ bigrams (split_ws query)) logs)"

section \<open>Zero-result queries\<close>

text \<open>
  SQL conditions have three truth values; a \<open>WHERE\<close> or \<open>FILTER\<close> keeps the rows whose
  condition is true.
\<close>

datatype sql_bool = STrue | SFalse | SNull

definition sql_eq :: "int option \<Rightarrow> int \<Rightarrow> sql_bool" where
  "sql_eq x n = (case x of None \<Rightarrow> SNull | Some v \<Rightarrow> if v = n then STrue else SFalse)"

definition sql_is_null :: "int option \<Rightarrow> sql_bool" where
  "sql_is_null x = (case x of None \<Rightarrow> STrue | Some v \<Rightarrow> SFalse)"

fun sql_or :: "sql_bool \<Rightarrow> sql_bool \<Rightarrow> sql_bool" where
  "sql_or STrue b = STrue"
| "sql_or a STrue = STrue"
| "sql_or SNull b = SNull"
| "sql_or a SNull = SNull"
| "sql_or SFalse SFalse = SFalse"

text \<open>\<open>recommendations_count = 0 OR recommendations_count IS NULL\<close>\<close>

definition zero_result_condition :: "log_entry \<Rightarrow> sql_bool" where
  "zero_result_condition e =
     sql_or (sql_eq (recommendations_count e) 0) (sql_is_null (recommendations_count e))"

text \<open>Python's \<open>x or 0\<close> for a nullable integer.\<close>

definition or_zero :: "int option \<Rightarrow> int" where
  "or_zero x = (case x of None \<Rightarrow> 0 | Some v \<Rightarrow> v)"

subsection \<open>Health monitor, step\_query\_quality\<close>

definition day :: int where "day = 86400"

text \<open>
  The rows of the two queries: \<open>created_at > NOW() - INTERVAL '24 hours'\<close>, and
  \<open>created_at > NOW() - INTERVAL 'n days' AND created_at <= NOW() - INTERVAL '24 hours'\<close>.
\<close>

definition last_24h :: "int \<Rightarrow> log_entry list \<Rightarrow> log_entry list" where
  "last_24h now logs = filter (\<lambda>e. created_at e > now - day) logs"

definition baseline_window :: "int \<Rightarrow> int \<Rightarrow> log_entry list \<Rightarrow> log_entry list" where
  "baseline_window now baseline_days logs =
     filter (\<lambda>e. created_at e > now - baseline_days * day \<and> created_at e \<le> now - day) logs"

text \<open>
  \<open>AVG(recommendations_count)\<close>: the mean of the values that are not NULL, NULL when
  there is none. The \<open>numeric\<close> result is taken as exact.
\<close>

definition sql_avg :: "int option list \<Rightarrow> rat option" where
  "sql_avg xs =
     (let vs = List.map_filter (\<lambda>x. x) xs
      in if vs = [] then None else Some (of_int (sum_list vs) / of_nat (length vs)))"

text \<open>
  The result of the step: its status, the fields of \<open>current\<close> and of \<open>baseline\<close>,
  and the severities of its alerts (their messages are left out).
\<close>

record query_quality =
  qq_status :: string
  total_queries_24h :: nat
  zero_result_24h :: nat
  zero_result_rate :: rat
  current_avg_recommendations :: rat
  unique_queries :: nat
  avg_daily_queries :: rat
  baseline_zero_rate :: rat
  baseline_avg_recommendations :: rat
  alerts :: "string list"

definition step_query_quality ::
  "int \<Rightarrow> int \<Rightarrow> rat \<Rightarrow> log_entry list \<Rightarrow> query_quality" where
  "step_query_quality now baseline_days threshold_zero_rate logs =
     (let current = last_24h now logs;
          total = length current;
          zero = length (filter (\<lambda>e. zero_result_condition e = STrue) current);
          baseline = baseline_window now baseline_days logs;
          baseline_zero = length (filter (\<lambda>e. zero_result_condition e = STrue) baseline);
          current_zero_rate = py_round (fmul (fdiv (of_nat zero) (of_nat (max total 1))) 100) 1;
          baseline_zero_rate =
            py_round (fmul (fdiv (of_nat baseline_zero) (of_nat (max (length baseline) 1))) 100) 1;
          alerts =
            (if fmul threshold_zero_rate 100 < current_zero_rate then [''high''] else [])
            @ (if 0 < baseline_zero_rate \<and> fmul baseline_zero_rate (3 / 2) < current_zero_rate
               then [''medium''] else [])
      in \<lparr>qq_status = (if ''high'' \<in> set alerts then ''fail''
                       else if alerts \<noteq> [] then ''warn'' else ''pass''),
          total_queries_24h = total,
          zero_result_24h = zero,
          zero_result_rate = current_zero_rate,
          current_avg_recommendations =
            py_round (fl (get_or (sql_avg (map recommendations_count current)) 0)) 1,
          unique_queries = length (remdups (List.map_filter le_query current)),
          avg_daily_queries =
            py_round (fl (of_int (int (length baseline) div max baseline_days 1))) 1,
          baseline_zero_rate = baseline_zero_rate,
          baseline_avg_recommendations =
            py_round (fl (get_or (sql_avg (map recommendations_count baseline)) 0)) 1,
          alerts = alerts\<rparr>)"

subsection \<open>Analyzer, the metric zero\_result\_queries\<close>

definition zero_result_queries :: "log_entry list \<Rightarrow> nat" where
  "zero_result_queries logs =
     (let recs_all = map (\<lambda>lg. or_zero (recommendations_count lg)) logs
      in length (filter (\<lambda>r. r = 0) recs_all))"

subsection \<open>Resolver, the selection of --worst\<close>

text \<open>
  \<open>SELECT DISTINCT query, COUNT(*) ... WHERE created_at > NOW() - INTERVAL '7 days' AND
  (recommendations_count = 0 OR recommendations_count IS NULL) GROUP BY query ORDER BY
  query_count DESC LIMIT n\<close>. The database may return groups of equal count in any
  order; the model keeps them in order of first occurrence.
\<close>

definition worst_queries :: "nat \<Rightarrow> int \<Rightarrow> log_entry list \<Rightarrow> (string option \<times> nat) list" where
  "worst_queries n now logs =
     (let rows = filter (\<lambda>e. created_at e > now - 7 * day
                              \<and> zero_result_condition e = STrue) logs
      in most_common n (fold counter_incr (map le_query rows) []))"

text \<open>A log in which every NULL \<open>recommendations_count\<close> is replaced by 0.\<close>

definition null_as_zero :: "log_entry \<Rightarrow> log_entry" where
  "null_as_zero e =
     (case recommendations_count e of
        None \<Rightarrow> e\<lparr>recommendations_count := Some 0\<rparr>
      | Some v \<Rightarrow> e)"

section \<open>The maintenance orchestrator (maintenance\_orchestrator.py)\<close>

definition daily_steps :: "string list" where
  "daily_steps =
     [''health_check_pre'', ''log_analysis'', ''enrichment'', ''tag_hygiene'',
      ''health_check_post'']"

definition weekly_steps :: "string list" where
  "weekly_steps =
     [''health_check_pre'', ''log_analysis'', ''enrichment'', ''tag_hygiene'',
      ''content_audit'', ''content_gaps'', ''health_check_post'']"

definition full_steps :: "string list" where
  "full_steps =
     [''health_check_pre'', ''log_analysis'', ''enrichment'', ''tag_hygiene'',
      ''content_audit'', ''content_gaps'', ''import_all'', ''health_check_post'']"

definition MAINTENANCE_STEPS :: "string \<Rightarrow> string list option" where
  "MAINTENANCE_STEPS m =
     (if m = ''daily'' then Some daily_steps
      else if m = ''weekly'' then Some weekly_steps
      else if m = ''full'' then Some full_steps
      else None)"

record args =
  mode :: string
  skip :: "string option"
  stop_on_error :: bool

text \<open>\<open>s.split(d)\<close> for a one-character separator: empty pieces are kept.\<close>

fun split_on :: "char \<Rightarrow> string \<Rightarrow> string \<Rightarrow> string list" where
  "split_on d acc [] = [acc]"
| "split_on d acc (c # cs) =
     (if c = d then acc # split_on d [] cs else split_on d (acc @ [c]) cs)"

definition steps_to_run :: "args \<Rightarrow> string list" where
  "steps_to_run a =
     (let steps = get_or (MAINTENANCE_STEPS (mode a)) daily_steps
      in case skip a of
           None \<Rightarrow> steps
         | Some sk \<Rightarrow>
             if sk = [] then steps
             else let skip_list = map strip (split_on CHR '','' [] sk)
                  in filter (\<lambda>s. s \<notin> set skip_list) steps)"

text \<open>
  What lies outside the orchestrator: whether each command it runs exits with 0, and
  what it then finds at \<open>/tmp/health_pre.json\<close>: no file, a file it cannot parse, or
  a report with its \<open>overall_status\<close> (if it has that key).
\<close>

datatype command =
  HealthMonitorPre | LogAnalyzer | EnrichDeep | AgentImprover | FixTagFormat
  | AuditContentTags | PopularityReport | ImportOrchestrator | HealthMonitorPost

datatype report_file = Missing | Unreadable | Report "string option"

record env =
  run_command :: "command \<Rightarrow> bool"
  health_pre_file :: report_file

datatype step_result =
  HealthPre (success: bool) (health_status: string) (critical: bool)
  | Step (success: bool)

definition step_health_check_pre :: "env \<Rightarrow> step_result" where
  "step_health_check_pre ev =
     (let result = run_command ev HealthMonitorPre;
          health_status = (case health_pre_file ev of
                             Missing \<Rightarrow> ''unknown''
                           | Unreadable \<Rightarrow> ''unknown''
                           | Report None \<Rightarrow> ''unknown''
                           | Report (Some st) \<Rightarrow> st)
      in HealthPre result health_status (health_status = ''critical''))"

text \<open>
  The steps that run one or two commands and report whether they succeeded; the
  post-run health check also reports a status and a delta, which nothing here reads.
\<close>

definition step_other :: "env \<Rightarrow> string \<Rightarrow> step_result" where
  "step_other ev step_name =
     (if step_name = ''log_analysis'' then Step (run_command ev LogAnalyzer)
      else if step_name = ''enrichment'' then Step (run_command ev EnrichDeep)
      else if step_name = ''tag_hygiene''
        then Step (run_command ev AgentImprover \<and> run_command ev FixTagFormat)
      else if step_name = ''content_audit'' then Step (run_command ev AuditContentTags)
      else if step_name = ''content_gaps'' then Step (run_command ev PopularityReport)
      else if step_name = ''import_all'' then Step (run_command ev ImportOrchestrator)
      else Step (run_command ev HealthMonitorPost))"

definition gated_steps :: "string list" where
  "gated_steps = [''log_analysis'', ''enrichment'', ''tag_hygiene'', ''content_audit'',
                  ''content_gaps'', ''import_all'']"

text \<open>
  The dictionary \<open>results\<close>: the step results in the order the steps ran, and the key
  \<open>stopped_at\<close> when the loop stopped early.
\<close>

record maintenance_results =
  step_results :: "(string \<times> step_result) list"
  stopped_at :: "string option"

text \<open>The loop of \<open>run_maintenance\<close>: \<open>done\<close> holds the results so far.\<close>

fun run_loop ::
  "args \<Rightarrow> env \<Rightarrow> string list \<Rightarrow> (string \<times> step_result) list \<Rightarrow> maintenance_results" where
  "run_loop a ev [] done = \<lparr>step_results = done, stopped_at = None\<rparr>"
| "run_loop a ev (step_name # rest) done =
     (if step_name = ''health_check_pre'' then
        (let result = step_health_check_pre ev
         in if critical result \<and> stop_on_error a
            then \<lparr>step_results = done @ [(step_name, result)], stopped_at = Some step_name\<rparr>
            else run_loop a ev rest (done @ [(step_name, result)]))
      else if step_name \<in> set gated_steps then
        (let result = step_other ev step_name
         in if \<not> success result \<and> stop_on_error a
            then \<lparr>step_results = done @ [(step_name, result)], stopped_at = Some step_name\<rparr>
            else run_loop a ev rest (done @ [(step_name, result)]))
      else if step_name = ''health_check_post'' then
        run_loop a ev rest (done @ [(step_name, step_other ev step_name)])
      else run_loop a ev rest done)"

definition run_maintenance :: "args \<Rightarrow> env \<Rightarrow> maintenance_results" where
  "run_maintenance a ev = run_loop a ev (steps_to_run a) []"

text \<open>The steps that were executed, in order.\<close>

definition executed :: "maintenance_results \<Rightarrow> string list" where
  "executed r = map fst (step_results r)"

text \<open>The report \<open>main\<close> builds from the results.\<close>

record maintenance_report =
  report_mode :: string
  report_results :: maintenance_results
  report_stopped_at :: "string option"

datatype py_error = AttributeError

text \<open>
  \<open>print_maintenance_report\<close> counts the successful steps with
  \<open>sum(1 for r in results.values() if r.get('success'))\<close>. The values of \<open>results\<close>
  are the step results and, when the run stopped, the string stored under
  \<open>stopped_at\<close>, which has no \<open>get\<close>. Otherwise it prints the number of entries and
  of successful steps.
\<close>

definition print_maintenance_report :: "maintenance_report \<Rightarrow> py_error + (nat \<times> nat)" where
  "print_maintenance_report report =
     (case stopped_at (report_results report) of
        Some s \<Rightarrow> Inl AttributeError
      | None \<Rightarrow>
          Inr (length (step_results (report_results report)),
               length (filter (\<lambda>(name, r). success r) (step_results (report_results report)))))"

text \<open>
  \<open>main\<close> after the arguments are parsed: run, build the report, print it, save it
  when an output file is named, exit with 1 when the run stopped. The result is the
  exception that ends it, or the report it has printed (and saved) with its exit code.
\<close>

definition main :: "args \<Rightarrow> env \<Rightarrow> py_error + (maintenance_report \<times> nat)" where
  "main a ev =
     (let results = run_maintenance a ev;
          report = \<lparr>report_mode = mode a, report_results = results,
                    report_stopped_at = stopped_at results\<rparr>
      in case print_maintenance_report report of
           Inl e \<Rightarrow> Inl e
         | Inr printed \<Rightarrow> Inr (report, if stopped_at results \<noteq> None then 1 else 0))"

section \<open>Inputs of the scenarios\<close>

text \<open>Rows of the seed data, as the terminology trace fetches them.\<close>

definition one_pager_row :: "int option \<Rightarrow> trace_row" where
  "one_pager_row u =
     \<lparr>tr_user_term = Some ''one pager'', tr_canonical_term = Some ''1-Pager'',
      tr_usage_count = u\<rparr>"

definition fafsa_row :: trace_row where
  "fafsa_row =
     \<lparr>tr_user_term = Some ''fafsa'', tr_canonical_term = Some ''FAFSA'',
      tr_usage_count = Some 0\<rparr>"

definition financial_aid_row :: trace_row where
  "financial_aid_row =
     \<lparr>tr_user_term = Some ''financial aid'', tr_canonical_term = Some ''FAFSA'',
      tr_usage_count = Some 0\<rparr>"

text \<open>Popularity groups for the branches of the gap classification.\<close>

definition e_high :: popularity_entry where
  "e_high = \<lparr>pe_query = ''fafsa checklist'', pe_count = 5, avg_recommendations = 0\<rparr>"

definition e_medium :: popularity_entry where
  "e_medium = \<lparr>pe_query = ''fafsa checklist'', pe_count = 2, avg_recommendations = 3 / 2\<rparr>"

definition e_low :: popularity_entry where
  "e_low = \<lparr>pe_query = ''fafsa checklist'', pe_count = 3, avg_recommendations = 4\<rparr>"

definition e_none :: popularity_entry where
  "e_none = \<lparr>pe_query = ''fafsa checklist'', pe_count = 2, avg_recommendations = 4\<rparr>"

definition e_once :: popularity_entry where
  "e_once = \<lparr>pe_query = ''fafsa checklist'', pe_count = 1, avg_recommendations = 0\<rparr>"

text \<open>
  A daily run with stop-on-error and \<open>--skip "tag_hygiene, enrichment"\<close>; a pre-run
  health check whose report says \<open>critical\<close>; and one whose command fails and leaves no
  report.
\<close>

definition daily_stop_args :: args where
  "daily_stop_args =
     \<lparr>mode = ''daily'', skip = Some ''tag_hygiene, enrichment'', stop_on_error = True\<rparr>"

definition critical_env :: env where
  "critical_env =
     \<lparr>run_command = (\<lambda>c. False), health_pre_file = Report (Some ''critical'')\<rparr>"

definition failed_health_env :: env where
  "failed_health_env =
     \<lparr>run_command = (\<lambda>c. c \<noteq> HealthMonitorPre), health_pre_file = Missing\<rparr>"

text \<open>
  A store holding the seed row \<open>one pager\<close>, a suggestion for the same natural key
  with another canonical term, and a connection on that store.
\<close>

definition one_pager_store :: store where
  "one_pager_store = store_after [] (seed_stmt ''content_type'' ''one pager'' ''1-Pager'')"

definition brochure_suggestion :: suggestion where
  "brochure_suggestion =
     \<lparr>s_map_type = Some ''content_type'', s_user_term = Some ''One Pager'',
      s_canonical_term = Some ''Brochure'', s_confidence = Some (9 / 10)\<rparr>"

definition one_pager_conn :: conn where
  "one_pager_conn = \<lparr>committed = one_pager_store, pending = one_pager_store, failed = False\<rparr>"

text \<open>An empty table, and a recommended fix of type \<open>add_terminology\<close>.\<close>

definition empty_conn :: conn where
  "empty_conn = \<lparr>committed = [], pending = [], failed = False\<rparr>"

definition fafsa_form_fix :: recommended_fix where
  "fafsa_form_fix =
     \<lparr>fix_type = Some ''add_terminology'', fx_user_term = Some ''fafsa form'',
      fx_standard_term = Some ''FAFSA''\<rparr>"

text \<open>
  Two log entries without a result count, one from the last 24 hours and one from the
  six days before, when the time is \<open>2 * day\<close>.
\<close>

definition null_logs :: "log_entry list" where
  "null_logs =
     [\<lparr>le_query = Some ''fafsa checklist'', recommendations_count = None,
       created_at = 2 * day - 10\<rparr>,
      \<lparr>le_query = Some ''fafsa checklist'', recommendations_count = None,
       created_at = day - 10\<rparr>]"

text \<open>
  Two logged queries and one active mapping, for the terminology mining.
\<close>

definition mining_logs :: "log_entry list" where
  "mining_logs =
     [\<lparr>le_query = Some ''FAFSA checklist'', recommendations_count = Some 0, created_at = 0\<rparr>,
      \<lparr>le_query = Some '' fafsa  Checklist pdf'', recommendations_count = None, created_at = 0\<rparr>]"

definition mining_mappings :: mappings where
  "mining_mappings = [(''topic'', [(''fafsa'', ''FAFSA'')])]"

section \<open>Notions used in the statements\<close>

text \<open>A zero-result log entry: its \<open>recommendations_count\<close> is NULL or 0.\<close>

definition is_zero_result :: "log_entry \<Rightarrow> bool" where
  "is_zero_result e = (recommendations_count e = None \<or> recommendations_count e = Some 0)"

text \<open>
  The terminology trace as a whole: one entry for each mapping that some token matches.
\<close>

definition entries_of :: "trace_row list \<Rightarrow> string list \<Rightarrow> matched_mapping list" where
  "entries_of ms tokens =
     List.map_filter (\<lambda>m. map_option (mapping_entry m) (find (token_matches m) tokens)) ms"

text \<open>
  The terms of one log entry that the mining counts: its unigrams, then its bigrams,
  each after its filter.
\<close>

definition log_terms :: "string list \<Rightarrow> log_entry \<Rightarrow> string list" where
  "log_terms mapped lg =
     (let query = lower (strip (or_empty (le_query lg)))
      in filter (unigram_ok mapped) (map (\<lambda>word. lower (strip word)) (split_ws query))
         @ filter (bigram_ok mapped) (bigrams (split_ws query)))"

section \<open>Properties of the terminology trace\<close>

lemma trace_loop_eq:
  "trace_loop ms tokens (matched, unmatched) =
     (matched @ entries_of ms tokens,
      unmatched - matched_token ` set (entries_of ms tokens))"
  unfolding entries_of_def
  by (induction ms arbitrary: matched unmatched)
     (auto simp: List.map_filter_simps mapping_entry_def split: option.splits)

lemma step_trace_fields:
  "matched_mappings (step_trace_terminology ms tokens) = entries_of ms tokens"
  "unmatched_tokens (step_trace_terminology ms tokens) =
     set tokens - matched_token ` set (entries_of ms tokens)"
  "mapping_coverage (step_trace_terminology ms tokens) =
     py_round (fmul (fdiv (of_nat (length (entries_of ms tokens)))
                          (of_nat (max (length tokens) 1))) 100) 1"
  by (simp_all add: step_trace_terminology_def trace_loop_eq)

subsection \<open>The trace of scenario B, evaluated\<close>

lemma tokenize_scenario_b:
  "tokenize ''need a one pager on fafsa'' = [''need'', ''one'', ''pager'', ''fafsa'']"
  by code_simp

lemma entries_scenario_b:
  "entries_of [one_pager_row u] [''need'', ''one'', ''pager'', ''fafsa''] =
     [mapping_entry (one_pager_row u) ''one'']"
proof -
  have f: "find (token_matches (one_pager_row u)) [''need'', ''one'', ''pager'', ''fafsa'']
             = Some ''one''"
    by (simp add: token_matches_def one_pager_row_def lower_def lower_char_def or_empty_def
          sublist_code)
  show ?thesis unfolding entries_of_def List.map_filter_simps f by simp
qed

lemma trace_scenario_b:
  "matched_mappings (step_trace_terminology [one_pager_row u] [''need'', ''one'', ''pager'', ''fafsa''])
     = [mapping_entry (one_pager_row u) ''one'']"
  "unmatched_tokens (step_trace_terminology [one_pager_row u] [''need'', ''one'', ''pager'', ''fafsa''])
     = {''need'', ''pager'', ''fafsa''}"
proof -
  show "matched_mappings (step_trace_terminology [one_pager_row u] [''need'', ''one'', ''pager'', ''fafsa''])
     = [mapping_entry (one_pager_row u) ''one'']"
    unfolding step_trace_fields entries_scenario_b by simp
  show "unmatched_tokens (step_trace_terminology [one_pager_row u] [''need'', ''one'', ''pager'', ''fafsa''])
     = {''need'', ''pager'', ''fafsa''}"
    unfolding step_trace_fields entries_scenario_b by (auto simp: mapping_entry_def)
qed

subsection \<open>Coverage\<close>

text \<open>
  Claim C1, evaluated where it fails. With the two seed mappings whose user term or
  canonical term is \<open>fafsa\<close>, the query \<open>fafsa\<close> has one token, which both
  mappings match: \<open>unmatched_tokens\<close> is empty and one token of one is matched, which is
  a coverage of 100, but \<open>mapping_coverage\<close> is 200, since the numerator counts the
  matched mappings and not the matched tokens.
\<close>

theorem mapping_coverage_exceeds_100:
  "tokenize ''fafsa'' = [''fafsa'']
   \<and> unmatched_tokens
        (step_trace_terminology [fafsa_row, financial_aid_row] (tokenize ''fafsa'')) = {}
   \<and> length (matched_mappings
        (step_trace_terminology [fafsa_row, financial_aid_row] (tokenize ''fafsa''))) = 2
   \<and> mapping_coverage
        (step_trace_terminology [fafsa_row, financial_aid_row] (tokenize ''fafsa'')) = 200"
  by code_simp

subsection \<open>Scenario B\<close>

text \<open>
  Claim C2 as stated fails: with the mapping \<open>one pager\<close> as the only mapping, the
  query \<open>need a one pager on fafsa\<close> leaves \<open>pager\<close> in \<open>unmatched_tokens\<close>.
\<close>

theorem scenario_b_counterexample:
  "\<not> (Some ''one pager'' \<in> mm_user_term ` set (matched_mappings
          (step_trace_terminology [one_pager_row (Some 0)]
             (tokenize ''need a one pager on fafsa'')))
      \<and> ''one'' \<notin> unmatched_tokens
          (step_trace_terminology [one_pager_row (Some 0)]
             (tokenize ''need a one pager on fafsa''))
      \<and> ''pager'' \<notin> unmatched_tokens
          (step_trace_terminology [one_pager_row (Some 0)]
             (tokenize ''need a one pager on fafsa'')))"
  unfolding tokenize_scenario_b trace_scenario_b by simp

text \<open>
  Claim C2, as amended. With the mapping \<open>one pager\<close> to \<open>1-Pager\<close> as the only
  mapping (whatever its usage count), resolving \<open>need a one pager on fafsa\<close> includes
  \<open>one pager\<close> in the matched mappings and \<open>one\<close>, the first token that matches it, is
  not in \<open>unmatched_tokens\<close>; the token \<open>pager\<close> stays in \<open>unmatched_tokens\<close>.
\<close>

theorem scenario_b_first_token_consumed:
  "Some ''one pager'' \<in> mm_user_term ` set (matched_mappings
          (step_trace_terminology [one_pager_row u] (tokenize ''need a one pager on fafsa'')))
   \<and> ''one'' \<notin> unmatched_tokens
          (step_trace_terminology [one_pager_row u] (tokenize ''need a one pager on fafsa''))
   \<and> ''pager'' \<in> unmatched_tokens
          (step_trace_terminology [one_pager_row u] (tokenize ''need a one pager on fafsa''))"
  unfolding tokenize_scenario_b trace_scenario_b
  by (simp add: mapping_entry_def one_pager_row_def)

section \<open>Properties of the gap analysis\<close>

lemma set_map_filter: "set (List.map_filter f xs) = {y. \<exists>x \<in> set xs. f x = Some y}"
  by (induction xs) (auto simp: List.map_filter_simps split: option.splits)

text \<open>
  Claim C4. A popularity group with count below 2 is skipped. A group with count at least
  2 falls into exactly one case: average recommendations 0 gives \<open>high\<close>; otherwise an
  average below 2 gives \<open>medium\<close>; otherwise fewer than 3 content matches together with
  a count of at least 3 gives \<open>low\<close>; otherwise the group is left out. The gap list holds
  exactly the gaps of the groups that were not skipped or left out.
\<close>

theorem gap_classification:
  "(pe_count e < 2 \<longrightarrow> gap_of texts e = None)
   \<and> (pe_count e \<ge> 2 \<longrightarrow>
        (avg_recommendations e = 0 \<longrightarrow>
           map_option gap_severity (gap_of texts e) = Some High)
      \<and> (avg_recommendations e \<noteq> 0 \<and> avg_recommendations e < 2 \<longrightarrow>
           map_option gap_severity (gap_of texts e) = Some Medium)
      \<and> (\<not> avg_recommendations e < 2 \<and> content_matches texts (pe_query e) < 3 \<and> pe_count e \<ge> 3 \<longrightarrow>
           map_option gap_severity (gap_of texts e) = Some Low)
      \<and> (\<not> avg_recommendations e < 2 \<and> \<not> (content_matches texts (pe_query e) < 3 \<and> pe_count e \<ge> 3) \<longrightarrow>
           gap_of texts e = None))
   \<and> set (generate_content_gap_analysis ranking inventory) =
        {g. \<exists>x \<in> set ranking. gap_of (map content_text inventory) x = Some g}"
proof -
  have skip: "pe_count e < 2 \<longrightarrow> gap_of texts e = None"
    by (simp add: gap_of_def)
  have cls: "pe_count e \<ge> 2 \<longrightarrow>
        (avg_recommendations e = 0 \<longrightarrow>
           map_option gap_severity (gap_of texts e) = Some High)
      \<and> (avg_recommendations e \<noteq> 0 \<and> avg_recommendations e < 2 \<longrightarrow>
           map_option gap_severity (gap_of texts e) = Some Medium)
      \<and> (\<not> avg_recommendations e < 2 \<and> content_matches texts (pe_query e) < 3 \<and> pe_count e \<ge> 3 \<longrightarrow>
           map_option gap_severity (gap_of texts e) = Some Low)
      \<and> (\<not> avg_recommendations e < 2 \<and> \<not> (content_matches texts (pe_query e) < 3 \<and> pe_count e \<ge> 3) \<longrightarrow>
           gap_of texts e = None)"
    by (auto simp: gap_of_def severity_of_def LOW_RECOMMENDATION_THRESHOLD_def Let_def)
  have lst: "set (generate_content_gap_analysis ranking inventory) =
        {g. \<exists>x \<in> set ranking. gap_of (map content_text inventory) x = Some g}"
    by (simp add: generate_content_gap_analysis_def set_map_filter)
  show ?thesis using skip cls lst by blast
qed

lemma content_matches_empty: "content_matches [] q = 0" by (simp add: content_matches_def)

text \<open>The five cases at concrete groups, against an empty inventory.\<close>

theorem gap_classification_witness:
  "pe_count e_once < 2 \<and> gap_of [] e_once = None
   \<and> pe_count e_high \<ge> 2 \<and> avg_recommendations e_high = 0
     \<and> map_option gap_severity (gap_of [] e_high) = Some High
   \<and> avg_recommendations e_medium \<noteq> 0 \<and> avg_recommendations e_medium < 2
     \<and> map_option gap_severity (gap_of [] e_medium) = Some Medium
   \<and> \<not> avg_recommendations e_low < 2 \<and> content_matches [] (pe_query e_low) < 3 \<and> pe_count e_low \<ge> 3
     \<and> map_option gap_severity (gap_of [] e_low) = Some Low
   \<and> \<not> avg_recommendations e_none < 2 \<and> \<not> (content_matches [] (pe_query e_none) < 3 \<and> pe_count e_none \<ge> 3)
     \<and> gap_of [] e_none = None"
  using gap_classification [of e_once "[]" "[]" "[]"] gap_classification [of e_high "[]" "[]" "[]"]
    gap_classification [of e_medium "[]" "[]" "[]"] gap_classification [of e_low "[]" "[]" "[]"]
    gap_classification [of e_none "[]" "[]" "[]"]
  by (simp add: e_once_def e_high_def e_medium_def e_low_def e_none_def content_matches_empty)



section \<open>Properties of the orchestrator\<close>

lemma mode_steps:
  "get_or (MAINTENANCE_STEPS m) daily_steps = daily_steps
   \<or> get_or (MAINTENANCE_STEPS m) daily_steps = weekly_steps
   \<or> get_or (MAINTENANCE_STEPS m) daily_steps = full_steps"
  by (simp add: MAINTENANCE_STEPS_def get_or_def)

lemma steps_to_run_filter:
  "\<exists>P xs. steps_to_run a = filter P xs \<and> (xs = daily_steps \<or> xs = weekly_steps \<or> xs = full_steps)"
proof -
  let ?xs = "get_or (MAINTENANCE_STEPS (mode a)) daily_steps"
  have "\<exists>P. steps_to_run a = filter P ?xs"
  proof (cases "skip a")
    case None
    then have "steps_to_run a = filter (\<lambda>s. True) ?xs" by (simp add: steps_to_run_def)
    then show ?thesis by blast
  next
    case (Some sk)
    show ?thesis
    proof (cases "sk = []")
      case True
      then have "steps_to_run a = filter (\<lambda>s. True) ?xs" using Some by (simp add: steps_to_run_def)
      then show ?thesis by blast
    next
      case False
      then have "steps_to_run a = filter (\<lambda>s. s \<notin> set (map strip (split_on CHR '','' [] sk))) ?xs"
        using Some by (simp add: steps_to_run_def Let_def)
      then show ?thesis by blast
    qed
  qed
  then show ?thesis using mode_steps [of "mode a"] by metis
qed

lemma steps_to_run_head:
  assumes "''health_check_pre'' \<in> set (steps_to_run a)"
  shows "\<exists>rest. steps_to_run a = ''health_check_pre'' # rest"
proof -
  obtain P xs where f: "steps_to_run a = filter P xs"
    and m: "xs = daily_steps \<or> xs = weekly_steps \<or> xs = full_steps"
    using steps_to_run_filter by blast
  have p: "P ''health_check_pre''" using assms f by simp
  obtain tl where "xs = ''health_check_pre'' # tl"
    using m by (auto simp: daily_steps_def weekly_steps_def full_steps_def)
  then show ?thesis using f p by simp
qed

lemma steps_to_run_distinct: "distinct (steps_to_run a)"
proof -
  obtain P xs where f: "steps_to_run a = filter P xs"
    and m: "xs = daily_steps \<or> xs = weekly_steps \<or> xs = full_steps"
    using steps_to_run_filter by blast
  have "distinct xs" using m by (auto simp: daily_steps_def weekly_steps_def full_steps_def)
  then show ?thesis using f by simp
qed

lemma steps_to_run_known:
  "s \<in> set (steps_to_run a) \<Longrightarrow>
     s = ''health_check_pre'' \<or> s \<in> set gated_steps \<or> s = ''health_check_post''"
proof -
  assume a: "s \<in> set (steps_to_run a)"
  obtain P xs where f: "steps_to_run a = filter P xs"
    and m: "xs = daily_steps \<or> xs = weekly_steps \<or> xs = full_steps"
    using steps_to_run_filter by blast
  have "s \<in> set xs" using a f by simp
  then show ?thesis using m
    by (auto simp: daily_steps_def weekly_steps_def full_steps_def gated_steps_def)
qed

lemma run_loop_step:
  "run_loop a ev (s # rest) dn = run_loop a ev rest dn
     \<and> \<not> (s = ''health_check_pre'' \<or> s \<in> set gated_steps \<or> s = ''health_check_post'')
   \<or> (\<exists>r. run_loop a ev (s # rest) dn = \<lparr>step_results = dn @ [(s, r)], stopped_at = Some s\<rparr>
          \<or> run_loop a ev (s # rest) dn = run_loop a ev rest (dn @ [(s, r)]))"
proof (cases "s = ''health_check_pre''")
  case True
  then show ?thesis by (simp add: Let_def) blast
next
  case pre: False
  show ?thesis
  proof (cases "s \<in> set gated_steps")
    case True
    then show ?thesis using pre by (simp add: Let_def) blast
  next
    case gated: False
    show ?thesis
    proof (cases "s = ''health_check_post''")
      case True
      then show ?thesis using pre gated by (simp add: Let_def) blast
    next
      case False
      then show ?thesis using pre gated by simp
    qed
  qed
qed

lemma run_loop_prefix: "prefix (map fst dn) (executed (run_loop a ev steps dn))"
proof (induction steps arbitrary: dn)
  case Nil
  then show ?case by (simp add: executed_def)
next
  case (Cons s steps)
  have ext: "prefix (map fst dn) (executed (run_loop a ev steps (dn @ [(s, r)])))" for r
    using Cons [of "dn @ [(s, r)]"] by (auto dest: append_prefixD)
  have stop: "prefix (map fst dn)
      (executed \<lparr>step_results = dn @ [(s, r)], stopped_at = Some s\<rparr>)" for r
    by (simp add: executed_def)
  show ?case
    using run_loop_step [of a ev s steps dn] ext stop Cons [of dn] by metis
qed

lemma run_loop_stopped_in:
  "stopped_at (run_loop a ev steps dn) = Some s \<Longrightarrow> s \<in> set steps"
proof (induction steps arbitrary: dn)
  case Nil
  then show ?case by simp
next
  case (Cons x steps)
  consider "run_loop a ev (x # steps) dn = run_loop a ev steps dn"
    | r where "run_loop a ev (x # steps) dn = \<lparr>step_results = dn @ [(x, r)], stopped_at = Some x\<rparr>"
    | r where "run_loop a ev (x # steps) dn = run_loop a ev steps (dn @ [(x, r)])"
    using run_loop_step [of a ev x steps dn] by blast
  then show ?case
  proof cases
    case 1
    then show ?thesis using Cons by simp
  next
    case 2
    then show ?thesis using Cons.prems by simp
  next
    case 3
    then show ?thesis using Cons by simp
  qed
qed

lemma run_loop_known_step:
  assumes "s = ''health_check_pre'' \<or> s \<in> set gated_steps \<or> s = ''health_check_post''"
  shows "prefix (map fst dn @ [s]) (executed (run_loop a ev (s # rest) dn))"
proof -
  have ext: "prefix (map fst dn @ [s]) (executed (run_loop a ev rest (dn @ [(s, r)])))" for r
    using run_loop_prefix [of "dn @ [(s, r)]" a ev rest] by simp
  have stop: "prefix (map fst dn @ [s])
      (executed \<lparr>step_results = dn @ [(s, r)], stopped_at = Some s\<rparr>)" for r
    by (simp add: executed_def)
  show ?thesis
    using run_loop_step [of a ev s rest dn] assms ext stop by metis
qed

text \<open>
  Claim C8, where it fails. In a run with stop-on-error whose pre-run health check is
  among the steps and reports \<open>critical\<close>, the loop halts as the claim says: the
  pre-run health check is the only step executed (the log analysis does not run) and
  the results record \<open>stopped_at = health_check_pre\<close>. But that string is stored among
  the results, so printing the report raises \<open>AttributeError\<close> and \<open>main\<close> ends
  with it: the maintenance report is neither printed nor saved.
\<close>

theorem critical_pre_health_report_not_emitted:
  assumes "stop_on_error a"
    and "''health_check_pre'' \<in> set (steps_to_run a)"
    and "health_pre_file ev = Report (Some ''critical'')"
  shows "executed (run_maintenance a ev) = [''health_check_pre'']
    \<and> ''log_analysis'' \<notin> set (executed (run_maintenance a ev))
    \<and> stopped_at (run_maintenance a ev) = Some ''health_check_pre''
    \<and> main a ev = Inl AttributeError"
proof -
  obtain rest where r: "steps_to_run a = ''health_check_pre'' # rest"
    using steps_to_run_head [OF assms(2)] by blast
  have c: "critical (step_health_check_pre ev)"
    using assms(3) by (simp add: step_health_check_pre_def)
  have "run_maintenance a ev =
          \<lparr>step_results = [(''health_check_pre'', step_health_check_pre ev)],
           stopped_at = Some ''health_check_pre''\<rparr>"
    using c assms(1) by (simp add: run_maintenance_def r Let_def)
  then show ?thesis by (simp add: executed_def main_def print_maintenance_report_def)
qed

text \<open>
  Claim C10. When the pre-run health check leaves no readable report with a status
  (no file, an unreadable file, or a report without \<open>overall_status\<close>), its status is
  \<open>unknown\<close> and, whatever the exit code of its command and whether or not
  stop-on-error is set, the run does not stop at the pre-run health check: the step
  after it is executed.
\<close>

theorem unknown_pre_health_proceeds:
  assumes "health_pre_file ev = Missing \<or> health_pre_file ev = Unreadable
             \<or> health_pre_file ev = Report None"
    and "steps_to_run a = ''health_check_pre'' # nxt # rest"
  shows "health_status (step_health_check_pre ev) = ''unknown''
    \<and> stopped_at (run_maintenance a ev) \<noteq> Some ''health_check_pre''
    \<and> take 2 (executed (run_maintenance a ev)) = [''health_check_pre'', nxt]"
proof -
  let ?r = "step_health_check_pre ev"
  have hs: "health_status ?r = ''unknown''"
    using assms(1) by (auto simp: step_health_check_pre_def)
  have nc: "\<not> critical ?r"
    using assms(1) by (auto simp: step_health_check_pre_def)
  have run: "run_maintenance a ev = run_loop a ev (nxt # rest) [(''health_check_pre'', ?r)]"
    using nc by (simp add: run_maintenance_def assms(2) Let_def)
  have d: "distinct (''health_check_pre'' # nxt # rest)"
    using steps_to_run_distinct [of a] assms(2) by simp
  have ns: "stopped_at (run_maintenance a ev) \<noteq> Some ''health_check_pre''"
  proof
    assume "stopped_at (run_maintenance a ev) = Some ''health_check_pre''"
    then have "''health_check_pre'' \<in> set (nxt # rest)"
      unfolding run by (rule run_loop_stopped_in)
    then show False using d by simp
  qed
  have "nxt \<in> set (steps_to_run a)" using assms(2) by simp
  then have k: "nxt = ''health_check_pre'' \<or> nxt \<in> set gated_steps \<or> nxt = ''health_check_post''"
    by (rule steps_to_run_known)
  have "prefix (map fst [(''health_check_pre'', ?r)] @ [nxt]) (executed (run_maintenance a ev))"
    unfolding run using k by (rule run_loop_known_step)
  then obtain zs where "executed (run_maintenance a ev) = [''health_check_pre'', nxt] @ zs"
    by (auto simp: prefix_def)
  then have "take 2 (executed (run_maintenance a ev)) = [''health_check_pre'', nxt]" by simp
  then show ?thesis using hs ns by blast
qed

lemma daily_stop_steps:
  "steps_to_run daily_stop_args = [''health_check_pre'', ''log_analysis'', ''health_check_post'']"
  by code_simp

text \<open>Scenario D: a daily run with stop-on-error and a critical pre-run report.\<close>

theorem critical_pre_health_report_not_emitted_witness:
  "stop_on_error daily_stop_args
   \<and> ''health_check_pre'' \<in> set (steps_to_run daily_stop_args)
   \<and> health_pre_file critical_env = Report (Some ''critical'')
   \<and> executed (run_maintenance daily_stop_args critical_env) = [''health_check_pre'']
   \<and> stopped_at (run_maintenance daily_stop_args critical_env) = Some ''health_check_pre''
   \<and> main daily_stop_args critical_env = Inl AttributeError"
proof -
  have h1: "stop_on_error daily_stop_args" by (simp add: daily_stop_args_def)
  have h2: "''health_check_pre'' \<in> set (steps_to_run daily_stop_args)"
    unfolding daily_stop_steps by simp
  have h3: "health_pre_file critical_env = Report (Some ''critical'')"
    by (simp add: critical_env_def)
  show ?thesis using h1 h2 h3 critical_pre_health_report_not_emitted [OF h1 h2 h3] by blast
qed

text \<open>
  A daily run with stop-on-error whose health monitor command fails and leaves no
  report: the log analysis still runs.
\<close>

theorem unknown_pre_health_proceeds_witness:
  "(health_pre_file failed_health_env = Missing \<or> health_pre_file failed_health_env = Unreadable
      \<or> health_pre_file failed_health_env = Report None)
   \<and> steps_to_run daily_stop_args = ''health_check_pre'' # ''log_analysis'' # [''health_check_post'']
   \<and> stop_on_error daily_stop_args
   \<and> \<not> success (step_health_check_pre failed_health_env)
   \<and> take 2 (executed (run_maintenance daily_stop_args failed_health_env)) =
        [''health_check_pre'', ''log_analysis'']"
proof -
  have h1: "health_pre_file failed_health_env = Missing \<or> health_pre_file failed_health_env = Unreadable
      \<or> health_pre_file failed_health_env = Report None"
    by (simp add: failed_health_env_def)
  have h2: "steps_to_run daily_stop_args = ''health_check_pre'' # ''log_analysis'' # [''health_check_post'']"
    unfolding daily_stop_steps by simp
  have h3: "stop_on_error daily_stop_args" by (simp add: daily_stop_args_def)
  have h4: "\<not> success (step_health_check_pre failed_health_env)"
    by (simp add: step_health_check_pre_def failed_health_env_def)
  show ?thesis using h1 h2 h3 h4 unknown_pre_health_proceeds [OF h1 h2] by blast
qed

section \<open>Properties of the zero-result classification\<close>

lemma zero_result_condition_iff: "(zero_result_condition e = STrue) = is_zero_result e"
  by (cases "recommendations_count e")
     (auto simp: zero_result_condition_def is_zero_result_def sql_eq_def sql_is_null_def)

lemma or_zero_iff: "(or_zero (recommendations_count e) = 0) = is_zero_result e"
  by (cases "recommendations_count e") (auto simp: or_zero_def is_zero_result_def)

lemma null_as_zero_simps:
  "is_zero_result (null_as_zero e) = is_zero_result e"
  "created_at (null_as_zero e) = created_at e"
  "le_query (null_as_zero e) = le_query e"
  by (cases "recommendations_count e"; simp add: null_as_zero_def is_zero_result_def)+

lemma filter_null_as_zero:
  assumes "\<And>e. P (null_as_zero e) = P e"
  shows "filter P (map null_as_zero logs) = map null_as_zero (filter P logs)"
  using assms by (induction logs) auto

lemma windows_null_as_zero:
  "last_24h now (map null_as_zero logs) = map null_as_zero (last_24h now logs)"
  "baseline_window now d (map null_as_zero logs) = map null_as_zero (baseline_window now d logs)"
  unfolding last_24h_def baseline_window_def
  by (rule filter_null_as_zero, simp add: null_as_zero_simps)+

lemma zero_count_null_as_zero:
  "length (filter is_zero_result (map null_as_zero xs)) = length (filter is_zero_result xs)"
proof -
  have "filter is_zero_result (map null_as_zero xs) = map null_as_zero (filter is_zero_result xs)"
    by (rule filter_null_as_zero) (simp add: null_as_zero_simps)
  then show ?thesis by simp
qed

lemma step_query_quality_zero_fields:
  "zero_result_24h (step_query_quality now d th logs) =
     length (filter is_zero_result (last_24h now logs))"
  "zero_result_rate (step_query_quality now d th logs) =
     py_round (fmul (fdiv (of_nat (length (filter is_zero_result (last_24h now logs))))
                          (of_nat (max (length (last_24h now logs)) 1))) 100) 1"
  "baseline_zero_rate (step_query_quality now d th logs) =
     py_round (fmul (fdiv (of_nat (length (filter is_zero_result (baseline_window now d logs))))
                          (of_nat (max (length (baseline_window now d logs)) 1))) 100) 1"
  by (simp_all add: step_query_quality_def Let_def zero_result_condition_iff)

lemma step_query_quality_alerts:
  "alerts (step_query_quality now d th logs) =
     (if fmul th 100 < zero_result_rate (step_query_quality now d th logs)
      then [''high''] else [])
     @ (if 0 < baseline_zero_rate (step_query_quality now d th logs)
           \<and> fmul (baseline_zero_rate (step_query_quality now d th logs)) (3 / 2)
               < zero_result_rate (step_query_quality now d th logs)
        then [''medium''] else [])"
  "qq_status (step_query_quality now d th logs) =
     (if ''high'' \<in> set (alerts (step_query_quality now d th logs)) then ''fail''
      else if alerts (step_query_quality now d th logs) \<noteq> [] then ''warn'' else ''pass'')"
  by (simp_all add: step_query_quality_def Let_def)

text \<open>
  Claim C9. In the health monitor, the 24-hour zero-result count and rate and the
  baseline zero-result rate count exactly the entries of their windows whose
  \<open>recommendations_count\<close> is NULL or 0, and replacing every NULL by 0 changes neither
  them nor the alerts and the status derived from them; a window holding one entry,
  whose count is NULL, has the rate 100. The analyzer's metric \<open>zero_result_queries\<close>
  and the resolver's selection for \<open>--worst\<close> count the same entries, and replacing
  every NULL by 0 changes neither.
\<close>

theorem null_counts_as_zero_result:
  "zero_result_24h (step_query_quality now d th logs) =
     length (filter is_zero_result (last_24h now logs))
   \<and> zero_result_rate (step_query_quality now d th logs) =
       py_round (fmul (fdiv (of_nat (length (filter is_zero_result (last_24h now logs))))
                            (of_nat (max (length (last_24h now logs)) 1))) 100) 1
   \<and> baseline_zero_rate (step_query_quality now d th logs) =
       py_round (fmul (fdiv (of_nat (length (filter is_zero_result (baseline_window now d logs))))
                            (of_nat (max (length (baseline_window now d logs)) 1))) 100) 1
   \<and> zero_result_24h (step_query_quality now d th (map null_as_zero logs)) =
       zero_result_24h (step_query_quality now d th logs)
   \<and> zero_result_rate (step_query_quality now d th (map null_as_zero logs)) =
       zero_result_rate (step_query_quality now d th logs)
   \<and> baseline_zero_rate (step_query_quality now d th (map null_as_zero logs)) =
       baseline_zero_rate (step_query_quality now d th logs)
   \<and> alerts (step_query_quality now d th (map null_as_zero logs)) =
       alerts (step_query_quality now d th logs)
   \<and> qq_status (step_query_quality now d th (map null_as_zero logs)) =
       qq_status (step_query_quality now d th logs)
   \<and> zero_result_rate (step_query_quality (2 * day) 7 (fl (15 / 100)) null_logs) = 100
   \<and> baseline_zero_rate (step_query_quality (2 * day) 7 (fl (15 / 100)) null_logs) = 100
   \<and> zero_result_queries logs = length (filter is_zero_result logs)
   \<and> zero_result_queries (map null_as_zero logs) = zero_result_queries logs
   \<and> worst_queries n now logs =
       most_common n (fold counter_incr
         (map le_query (filter (\<lambda>e. created_at e > now - 7 * day \<and> is_zero_result e) logs)) [])
   \<and> worst_queries n now (map null_as_zero logs) = worst_queries n now logs"
proof -
  let ?r = "step_query_quality now d th logs"
  let ?z = "step_query_quality now d th (map null_as_zero logs)"
  have z: "zero_result_queries xs = length (filter is_zero_result xs)" for xs
    by (simp add: zero_result_queries_def filter_map comp_def or_zero_iff)
  have w: "worst_queries n now xs =
       most_common n (fold counter_incr
         (map le_query (filter (\<lambda>e. created_at e > now - 7 * day \<and> is_zero_result e) xs)) [])" for xs
    by (simp add: worst_queries_def zero_result_condition_iff)
  have f: "filter P (map null_as_zero logs) = map null_as_zero (filter P logs)"
    if "\<And>e. P (null_as_zero e) = P e" for P
    using that by (rule filter_null_as_zero)
  have i1: "zero_result_24h ?z = zero_result_24h ?r"
    by (simp only: step_query_quality_zero_fields windows_null_as_zero zero_count_null_as_zero)
  have i2: "zero_result_rate ?z = zero_result_rate ?r"
    by (simp only: step_query_quality_zero_fields windows_null_as_zero zero_count_null_as_zero
          length_map)
  have i3: "baseline_zero_rate ?z = baseline_zero_rate ?r"
    by (simp only: step_query_quality_zero_fields windows_null_as_zero zero_count_null_as_zero
          length_map)
  define alerts_of where "alerts_of = (\<lambda>c b :: rat.
     (if fmul th 100 < c then [''high''] else [])
     @ (if 0 < b \<and> fmul b (3 / 2) < c then [''medium''] else []))"
  define status_of where "status_of = (\<lambda>al :: string list.
     if ''high'' \<in> set al then ''fail'' else if al \<noteq> [] then ''warn'' else ''pass'')"
  have a: "alerts (step_query_quality now d th xs) =
      alerts_of (zero_result_rate (step_query_quality now d th xs))
                (baseline_zero_rate (step_query_quality now d th xs))" for xs
    unfolding alerts_of_def by (rule step_query_quality_alerts(1))
  have st: "qq_status (step_query_quality now d th xs) =
      status_of (alerts (step_query_quality now d th xs))" for xs
    unfolding status_of_def by (rule step_query_quality_alerts(2))
  have "alerts ?z = alerts_of (zero_result_rate ?z) (baseline_zero_rate ?z)" by (rule a)
  also have "\<dots> = alerts_of (zero_result_rate ?r) (baseline_zero_rate ?r)"
    using i2 i3 by (rule arg_cong2)
  also have "\<dots> = alerts ?r" by (rule a [symmetric])
  finally have i4: "alerts ?z = alerts ?r" .
  have "qq_status ?z = status_of (alerts ?z)" by (rule st)
  also have "\<dots> = status_of (alerts ?r)" using i4 by (rule arg_cong)
  also have "\<dots> = qq_status ?r" by (rule st [symmetric])
  finally have i5: "qq_status ?z = qq_status ?r" .
  have c1: "zero_result_rate (step_query_quality (2 * day) 7 (fl (15 / 100)) null_logs) = 100"
    by code_simp
  have c2: "baseline_zero_rate (step_query_quality (2 * day) 7 (fl (15 / 100)) null_logs) = 100"
    by code_simp
  have h4: "zero_result_queries (map null_as_zero logs) = zero_result_queries logs"
    unfolding z by (simp add: f null_as_zero_simps)
  have h6: "worst_queries n now (map null_as_zero logs) = worst_queries n now logs"
    unfolding w by (simp add: f null_as_zero_simps comp_def)
  show ?thesis
    by (intro conjI step_query_quality_zero_fields i1 i2 i3 i4 i5 c1 c2 z h4 w h6)
qed

section \<open>Properties of the terminology store\<close>

lemma proposed_row_key:
  "proposed_row st = Inr r \<Longrightarrow> i_map_type st = Some (map_type r) \<and> i_user_term st = Some (user_term r)"
  unfolding proposed_row_def Let_def
  by (cases "i_map_type st"; cases "i_user_term st"; cases "i_canonical_term st")
     (auto split: if_splits)

lemma store_after_cases:
  "store_after s st = s
   \<or> (\<exists>r. proposed_row st = Inr r \<and> natural_key r \<notin> set (map natural_key s)
          \<and> store_after s st = s @ [r])"
proof (cases "conflict_target_ok (on_conflict st)")
  case False
  then show ?thesis by (simp add: store_after_def exec_insert_def)
next
  case ok: True
  show ?thesis
  proof (cases "proposed_row st")
    case (Inl e)
    then show ?thesis using ok by (simp add: store_after_def exec_insert_def)
  next
    case (Inr r)
    show ?thesis
    proof (cases "natural_key r \<in> set (map natural_key s)")
      case True
      then have "store_after s st = s"
        using ok Inr by (simp only: store_after_def exec_insert_def) (simp split: if_splits)
      then show ?thesis by simp
    next
      case False
      then have "store_after s st = s @ [r]"
        using ok Inr by (simp only: store_after_def exec_insert_def) simp
      then show ?thesis using Inr False by blast
    qed
  qed
qed

lemma store_after_distinct:
  "distinct (map natural_key s) \<Longrightarrow> distinct (map natural_key (store_after s st))"
  using store_after_cases [of s st] by auto

lemma store_after_prefix: "prefix s (store_after s st)"
  using store_after_cases [of s st] by auto

lemma store_after_key_present:
  assumes "\<exists>r \<in> set s. i_map_type st = Some (map_type r) \<and> i_user_term st = Some (user_term r)"
  shows "store_after s st = s"
proof -
  from assms obtain r0 where r0: "r0 \<in> set s" "i_map_type st = Some (map_type r0)"
    "i_user_term st = Some (user_term r0)" by blast
  have "natural_key r \<in> set (map natural_key s)" if "proposed_row st = Inr r" for r
  proof -
    have "natural_key r = natural_key r0"
      using proposed_row_key [OF that] r0 by (simp add: natural_key_def)
    then show ?thesis using r0(1) by auto
  qed
  then show ?thesis using store_after_cases [of s st] by blast
qed

lemma store_after_twice: "store_after (store_after s st) st = store_after s st"
proof -
  consider "store_after s st = s"
    | r where "proposed_row st = Inr r" "store_after s st = s @ [r]"
    using store_after_cases [of s st] by blast
  then show ?thesis
  proof cases
    case 1
    then show ?thesis by simp
  next
    case 2
    have "\<exists>x \<in> set (s @ [r]). i_map_type st = Some (map_type x) \<and> i_user_term st = Some (user_term x)"
      using proposed_row_key [OF 2(1)] by simp
    then have "store_after (s @ [r]) st = s @ [r]" by (rule store_after_key_present)
    then show ?thesis using 2 by simp
  qed
qed

lemma run_inserts_distinct:
  "distinct (map natural_key s) \<Longrightarrow> distinct (map natural_key (run_inserts s sts))"
  unfolding run_inserts_def
  by (induction sts arbitrary: s) (simp_all add: store_after_distinct)

lemma run_inserts_prefix: "prefix s (run_inserts s sts)"
  unfolding run_inserts_def
proof (induction sts arbitrary: s)
  case Nil
  then show ?case by simp
next
  case (Cons st sts)
  have "prefix s (store_after s st)" by (rule store_after_prefix)
  moreover have "prefix (store_after s st) (fold (\<lambda>st s'. store_after s' st) sts (store_after s st))"
    by (rule Cons)
  ultimately show ?case by (auto intro: prefix_order.trans)
qed

text \<open>The loop of the batch, on the connection.\<close>

lemma execute_cases:
  assumes "execute c st = (err, got, c')"
  shows "committed c' = committed c
     \<and> (failed c' \<or> (\<not> failed c \<and> pending c' = store_after (pending c) st))"
proof (cases "failed c")
  case True
  then have "c' = c" using assms by (simp add: execute_def)
  then show ?thesis using True by simp
next
  case nf: False
  show ?thesis
  proof (cases "exec_insert (pending c) st")
    case (Inl e)
    then have "c' = c\<lparr>failed := True\<rparr>" using assms nf by (simp add: execute_def)
    then show ?thesis by simp
  next
    case (Inr p)
    obtain s' ins where p: "p = (s', ins)" by (cases p) auto
    have "c' = c\<lparr>pending := s'\<rparr>" using assms nf Inr p by (simp add: execute_def)
    moreover have "store_after (pending c) st = s'" using Inr p by (simp add: store_after_def)
    ultimately show ?thesis using nf by simp
  qed
qed

lemma insert_loop_inv:
  assumes "insert_loop sgs (n, c) = (n', c')"
    and "failed c \<or> (distinct (map natural_key (pending c)) \<and> prefix s (pending c))"
  shows "committed c' = committed c
     \<and> (failed c' \<or> (distinct (map natural_key (pending c')) \<and> prefix s (pending c')))"
  using assms
proof (induction sgs arbitrary: n c)
  case Nil
  then show ?case by simp
next
  case (Cons sg sgs)
  obtain err got c1 where e: "execute c (suggestion_stmt sg) = (err, got, c1)"
    by (cases "execute c (suggestion_stmt sg)") auto
  have c1: "committed c1 = committed c"
    and f1: "failed c1 \<or> (\<not> failed c \<and> pending c1 = store_after (pending c) (suggestion_stmt sg))"
    using execute_cases [OF e] by simp_all
  have inv1: "failed c1 \<or> (distinct (map natural_key (pending c1)) \<and> prefix s (pending c1))"
  proof (cases "failed c1")
    case True
    then show ?thesis by simp
  next
    case False
    then have nf: "\<not> failed c" and p: "pending c1 = store_after (pending c) (suggestion_stmt sg)"
      using f1 by simp_all
    have d: "distinct (map natural_key (pending c))" and q: "prefix s (pending c)"
      using Cons.prems(2) nf by simp_all
    have d1: "distinct (map natural_key (pending c1))"
      unfolding p using d by (rule store_after_distinct)
    have "prefix (pending c) (pending c1)" unfolding p by (rule store_after_prefix)
    then have "prefix s (pending c1)" using q by (rule prefix_order.trans [rotated])
    then show ?thesis using d1 by simp
  qed
  have "insert_loop sgs (if err = None \<and> got then n + 1 else n, c1) = (n', c')"
    using Cons.prems(1) e by simp
  then have "committed c' = committed c1
     \<and> (failed c' \<or> (distinct (map natural_key (pending c')) \<and> prefix s (pending c')))"
    using inv1 by (rule Cons.IH)
  then show ?case using c1 by simp
qed

lemma insert_terminology_suggestions_inv:
  assumes "pending c = committed c" and "distinct (map natural_key (committed c))"
  shows "distinct (map natural_key (committed (snd (insert_terminology_suggestions c sgs dry))))
     \<and> prefix (committed c) (committed (snd (insert_terminology_suggestions c sgs dry)))"
proof (cases "sgs = [] \<or> dry")
  case True
  then show ?thesis using assms by (simp add: insert_terminology_suggestions_def)
next
  case False
  obtain n' c' where l: "insert_loop sgs (0, c) = (n', c')"
    by (cases "insert_loop sgs (0, c)") auto
  have inv: "committed c' = committed c
     \<and> (failed c' \<or> (distinct (map natural_key (pending c')) \<and> prefix (committed c) (pending c')))"
    using insert_loop_inv [OF l, of "committed c"] assms by simp
  have "snd (insert_terminology_suggestions c sgs dry) = commit c'"
    using False l by (simp add: insert_terminology_suggestions_def)
  then show ?thesis using inv assms by (cases "failed c'") (simp_all add: commit_def)
qed

text \<open>
  Claim C6. On a store with at most one row per (map type, user term), a seed insert or
  a suggested insert leaves at most one row per pair and keeps every existing row
  unchanged and in place; executing the same insert a second time changes nothing; if a
  row with the insert's pair exists already, the store stays exactly as it is, so no
  field of that row changes. The same invariant holds for the seed statement of the
  1-Pager variations as a whole and for a batch of \<open>insert_terminology_suggestions\<close>
  on a connection without uncommitted changes.
\<close>

theorem natural_key_insert_idempotent:
  assumes "distinct (map natural_key s)"
    and "st = seed_stmt mt ut ct \<or> st = suggestion_stmt sg"
  shows "distinct (map natural_key (store_after s st))
    \<and> prefix s (store_after s st)
    \<and> store_after (store_after s st) st = store_after s st
    \<and> ((\<exists>r \<in> set s. i_map_type st = Some (map_type r) \<and> i_user_term st = Some (user_term r))
         \<longrightarrow> store_after s st = s)
    \<and> distinct (map natural_key (run_inserts s seed_one_pager))
    \<and> prefix s (run_inserts s seed_one_pager)
    \<and> (pending c = s \<and> committed c = s \<longrightarrow>
         distinct (map natural_key (committed (snd (insert_terminology_suggestions c sgs dry))))
         \<and> prefix s (committed (snd (insert_terminology_suggestions c sgs dry))))"
proof -
  have b: "pending c = s \<and> committed c = s \<longrightarrow>
         distinct (map natural_key (committed (snd (insert_terminology_suggestions c sgs dry))))
         \<and> prefix s (committed (snd (insert_terminology_suggestions c sgs dry)))"
    using insert_terminology_suggestions_inv [of c sgs dry] assms(1) by auto
  have k: "(\<exists>r \<in> set s. i_map_type st = Some (map_type r) \<and> i_user_term st = Some (user_term r))
         \<longrightarrow> store_after s st = s"
    using store_after_key_present [of s st] by blast
  show ?thesis
    by (intro conjI store_after_distinct [OF assms(1)] store_after_prefix store_after_twice k
          run_inserts_distinct [OF assms(1)] run_inserts_prefix b)
qed

lemma one_pager_store_eq:
  "one_pager_store =
     [\<lparr>map_type = ''content_type'', user_term = ''one pager'', canonical_term = ''1-Pager'',
       confidence = Some 1, source = Some ''seed'', usage_count = Some 0,
       is_active = Some True, is_verified = Some True\<rparr>]"
  by code_simp

lemma brochure_stmt_key:
  "i_map_type (suggestion_stmt brochure_suggestion) = Some ''content_type''
   \<and> i_user_term (suggestion_stmt brochure_suggestion) = Some ''one pager''"
  by code_simp

text \<open>
  The store with the seed row \<open>one pager\<close> to \<open>1-Pager\<close>: the suggestion
  \<open>One Pager\<close> to \<open>Brochure\<close> has the same pair once lowercased, and leaves the row
  and its canonical term as they are.
\<close>

theorem natural_key_insert_idempotent_witness:
  "distinct (map natural_key one_pager_store)
   \<and> (\<exists>r \<in> set one_pager_store.
         i_map_type (suggestion_stmt brochure_suggestion) = Some (map_type r)
         \<and> i_user_term (suggestion_stmt brochure_suggestion) = Some (user_term r))
   \<and> pending one_pager_conn = one_pager_store \<and> committed one_pager_conn = one_pager_store
   \<and> store_after one_pager_store (suggestion_stmt brochure_suggestion) = one_pager_store
   \<and> map canonical_term (store_after one_pager_store (suggestion_stmt brochure_suggestion))
        = [''1-Pager'']
   \<and> prefix one_pager_store
        (committed (snd (insert_terminology_suggestions one_pager_conn [brochure_suggestion] False)))"
proof -
  have h1: "distinct (map natural_key one_pager_store)"
    unfolding one_pager_store_eq by simp
  have h2: "suggestion_stmt brochure_suggestion = seed_stmt mt ut ct
              \<or> suggestion_stmt brochure_suggestion = suggestion_stmt brochure_suggestion"
    for mt ut ct by simp
  have h3: "\<exists>r \<in> set one_pager_store.
         i_map_type (suggestion_stmt brochure_suggestion) = Some (map_type r)
         \<and> i_user_term (suggestion_stmt brochure_suggestion) = Some (user_term r)"
    unfolding one_pager_store_eq using brochure_stmt_key by simp
  have h4: "pending one_pager_conn = one_pager_store \<and> committed one_pager_conn = one_pager_store"
    by (simp add: one_pager_conn_def)
  note t = natural_key_insert_idempotent [OF h1 h2, where c = one_pager_conn
              and sgs = "[brochure_suggestion]" and dry = False]
  have c1: "store_after one_pager_store (suggestion_stmt brochure_suggestion) = one_pager_store"
    using t h3 by blast
  have c2: "map canonical_term (store_after one_pager_store (suggestion_stmt brochure_suggestion))
        = [''1-Pager'']"
    unfolding c1 unfolding one_pager_store_eq by simp
  have c3: "prefix one_pager_store
        (committed (snd (insert_terminology_suggestions one_pager_conn [brochure_suggestion] False)))"
    using t h4 by blast
  show ?thesis using h1 h3 h4 c1 c2 c3 by blast
qed

section \<open>The auto-fix of the resolver\<close>

lemma conflict_target_user_term: "\<not> conflict_target_ok [''user_term'']"
  by (auto simp: conflict_target_ok_def)

lemma exec_auto_fix_stmt: "exec_insert s (auto_fix_stmt ut ct) = Inl NoConflictTarget"
  by (simp add: exec_insert_def auto_fix_stmt_def conflict_target_user_term)

lemma execute_auto_fix_stmt:
  "\<exists>e c'. execute c (auto_fix_stmt ut ct) = (Some e, False, c') \<and> committed c' = committed c"
  by (cases "failed c") (simp_all add: execute_def exec_auto_fix_stmt)

lemma auto_fix_loop_never_writes:
  "auto_fix_loop False fs (applied, skipped, c) = (applied', skipped', c')
     \<Longrightarrow> applied' = applied \<and> committed c' = committed c"
proof (induction fs arbitrary: skipped c)
  case Nil
  then show ?case by simp
next
  case (Cons f fs)
  obtain e c1 where e: "execute c (auto_fix_stmt (or_empty (fx_user_term f)) (or_empty (fx_standard_term f)))
      = (Some e, False, c1)" and c1: "committed c1 = committed c"
    using execute_auto_fix_stmt by blast
  show ?case
  proof (cases "fix_type f = Some ''add_terminology''")
    case False
    then show ?thesis using Cons by simp
  next
    case add: True
    show ?thesis
    proof (cases "falsy (fx_user_term f) \<or> falsy (fx_standard_term f)")
      case True
      then show ?thesis using add Cons by simp
    next
      case False
      then have "auto_fix_loop False fs (applied, skipped @ [(f, Raised e)], c1) = (applied', skipped', c')"
        using add Cons.prems e by simp
      then show ?thesis using Cons.IH c1 by metis
    qed
  qed
qed

text \<open>
  Claim C3, evaluated where it fails. For the recommended fix \<open>add_terminology\<close> of
  \<open>fafsa form\<close> to \<open>FAFSA\<close>, outside dry-run and on an empty table, the auto-fix
  inserts nothing: its statement names a conflict target without a unique constraint,
  so it is rejected and the fix ends among the skipped ones. The statement sets neither
  \<open>is_active\<close> (whose default is true) nor a map type, where the insert of
  \<open>insert_terminology_suggestions\<close> sets \<open>is_active\<close> to false.
\<close>

theorem auto_fix_insert_is_rejected:
  "step_auto_fix empty_conn (Some [fafsa_form_fix]) False =
     (\<lparr>status = ''none_applicable'', fixes_applied = [],
       fixes_skipped = [(fafsa_form_fix, Raised NoConflictTarget)], total_applied = 0\<rparr>,
      empty_conn\<lparr>failed := True\<rparr>)
   \<and> i_is_active (auto_fix_stmt ''fafsa form'' ''FAFSA'') = None
   \<and> default_is_active = Some True
   \<and> i_is_active (suggestion_stmt \<lparr>s_map_type = None, s_user_term = Some ''fafsa form'',
         s_canonical_term = Some ''FAFSA'', s_confidence = None\<rparr>) = Some False"
proof -
  have x: "execute empty_conn (auto_fix_stmt ''fafsa form'' ''FAFSA'')
            = (Some NoConflictTarget, False, empty_conn\<lparr>failed := True\<rparr>)"
    by (simp add: execute_def exec_auto_fix_stmt empty_conn_def)
  have "step_auto_fix empty_conn (Some [fafsa_form_fix]) False =
     (\<lparr>status = ''none_applicable'', fixes_applied = [],
       fixes_skipped = [(fafsa_form_fix, Raised NoConflictTarget)], total_applied = 0\<rparr>,
      empty_conn\<lparr>failed := True\<rparr>)"
    using x by (simp add: step_auto_fix_def fafsa_form_fix_def falsy_def or_empty_def)
  then show ?thesis
    by (simp add: auto_fix_stmt_def suggestion_stmt_def default_is_active_def)
qed

section \<open>Properties of the terminology mining\<close>

subsection \<open>Words of a lowercased query\<close>

lemma lower_char_idem: "lower_char (lower_char c) = lower_char c"
proof -
  have "of_char (char_of (n + 32 :: nat)) = n + 32" if "65 \<le> n" "n \<le> 90" for n :: nat
    using that by (simp add: of_char_of)
  then show ?thesis
    by (auto simp: lower_char_def Let_def)
qed

lemma lower_idem: "lower (lower s) = lower s"
  by (simp add: lower_def lower_char_idem)

lemma lower_append: "lower (a @ b) = lower a @ lower b"
  by (simp add: lower_def)

lemma lower_space: "lower '' '' = '' ''"
  by (simp add: lower_def lower_char_def)

lemma runs_chars:
  "w \<in> set (runs p acc s) \<Longrightarrow> set w \<subseteq> set acc \<union> {c \<in> set s. p c}"
proof (induction s arbitrary: acc)
  case Nil
  then show ?case by (auto split: if_splits)
next
  case (Cons c cs)
  show ?case
  proof (cases "p c")
    case True
    then have "w \<in> set (runs p (acc @ [c]) cs)" using Cons.prems by simp
    then have "set w \<subseteq> set (acc @ [c]) \<union> {x \<in> set cs. p x}" by (rule Cons.IH)
    then show ?thesis using True by auto
  next
    case False
    then have "w \<in> set (if acc = [] then [] else [acc]) \<or> w \<in> set (runs p [] cs)"
      using Cons.prems by simp
    then show ?thesis
    proof
      assume "w \<in> set (if acc = [] then [] else [acc])"
      then show ?thesis by (auto split: if_splits)
    next
      assume "w \<in> set (runs p [] cs)"
      then have "set w \<subseteq> set [] \<union> {x \<in> set cs. p x}" by (rule Cons.IH)
      then show ?thesis by auto
    qed
  qed
qed

lemma split_ws_chars:
  "w \<in> set (split_ws s) \<Longrightarrow> set w \<subseteq> set s \<and> (\<forall>c \<in> set w. \<not> is_space c)"
  using runs_chars [of w "\<lambda>c. \<not> is_space c" "[]" s] by (auto simp: split_ws_def)

lemma strip_no_space: "\<forall>c \<in> set w. \<not> is_space c \<Longrightarrow> strip w = w"
proof -
  assume a: "\<forall>c \<in> set w. \<not> is_space c"
  have d: "dropWhile is_space xs = xs" if "\<forall>c \<in> set xs. \<not> is_space c" for xs
    using that by (cases xs) auto
  have "dropWhile is_space w = w" using a by (rule d)
  moreover have "dropWhile is_space (rev w) = rev w" using a by (intro d) simp
  ultimately show ?thesis by (simp add: strip_def)
qed

lemma lower_fixed: "set w \<subseteq> set (lower s) \<Longrightarrow> lower w = w"
proof -
  assume a: "set w \<subseteq> set (lower s)"
  have "lower_char c = c" if "c \<in> set w" for c
  proof -
    from that a obtain d where "c = lower_char d" by (auto simp: lower_def)
    then show ?thesis by (simp add: lower_char_idem)
  qed
  then show ?thesis by (simp add: lower_def map_idI)
qed

lemma word_of_lowered:
  assumes "w \<in> set (split_ws (lower s))"
  shows "lower (strip w) = w" and "lower w = w"
proof -
  have c: "set w \<subseteq> set (lower s)" and n: "\<forall>c \<in> set w. \<not> is_space c"
    using split_ws_chars [OF assms] by simp_all
  show "lower w = w" using c by (rule lower_fixed)
  then show "lower (strip w) = w" using strip_no_space [OF n] by simp
qed

lemma bigrams_words:
  "b \<in> set (bigrams ws) \<Longrightarrow> \<exists>x \<in> set ws. \<exists>y \<in> set ws. b = x @ '' '' @ y"
  by (induction ws rule: bigrams.induct) auto

lemma bigram_of_lowered:
  assumes "b \<in> set (bigrams (split_ws (lower s)))"
  shows "lower b = b"
proof -
  obtain x y where x: "x \<in> set (split_ws (lower s))" and y: "y \<in> set (split_ws (lower s))"
    and b: "b = x @ '' '' @ y"
    using bigrams_words [OF assms] by blast
  show ?thesis
    unfolding b lower_append lower_space word_of_lowered(2) [OF x] word_of_lowered(2) [OF y]
    by (rule refl)
qed

subsection \<open>The counter\<close>

lemma fold_unigrams:
  "fold (\<lambda>word st'. if unigram_ok mapped (lower (strip word))
                      then note_term q (lower (strip word)) st' else st') ws st
     = fold (note_term q) (filter (unigram_ok mapped) (map (\<lambda>word. lower (strip word)) ws)) st"
  by (induction ws arbitrary: st) simp_all

lemma fold_bigrams:
  "fold (\<lambda>b st'. if bigram_ok mapped b then note_term q b st' else st') bs st
     = fold (note_term q) (filter (bigram_ok mapped) bs) st"
  by (induction bs arbitrary: st) simp_all

lemma mine_log_fold:
  "mine_log mapped lg st =
     fold (note_term (lower (strip (or_empty (le_query lg))))) (log_terms mapped lg) st"
  by (simp add: mine_log_def log_terms_def Let_def fold_unigrams fold_bigrams)

lemma fst_note_term: "fst (note_term q t st) = counter_incr t (fst st)"
  by (cases st) (simp add: note_term_def)

lemma fst_fold_note_term: "fst (fold (note_term q) ts st) = fold counter_incr ts (fst st)"
  by (induction ts arbitrary: st) (simp_all add: fst_note_term)

lemma fst_fold_mine_log:
  "fst (fold (mine_log mapped) logs st) =
     fold counter_incr (concat (map (log_terms mapped) logs)) (fst st)"
  by (induction logs arbitrary: st) (simp_all add: mine_log_fold fst_fold_note_term)

lemma counter_incr_entries:
  "(x, m) \<in> set (counter_incr t cs) \<Longrightarrow>
     (x, m) \<in> set cs \<or> (x = t \<and> (m = 1 \<or> (\<exists>n. (t, n) \<in> set cs \<and> m = n + 1)))"
  by (induction cs) (auto split: if_splits)

lemma fold_counter_incr_le:
  assumes "\<And>x m. (x, m) \<in> set cs \<Longrightarrow> m \<le> count_list dn x"
    and "(x, m) \<in> set (fold counter_incr ts cs)"
  shows "m \<le> count_list (dn @ ts) x"
  using assms
proof (induction ts arbitrary: cs dn)
  case Nil
  then show ?case by simp
next
  case (Cons t ts)
  have inv: "m' \<le> count_list (dn @ [t]) x'" if h: "(x', m') \<in> set (counter_incr t cs)" for x' m'
  proof -
    consider "(x', m') \<in> set cs" | "x' = t" "m' = 1"
      | n where "x' = t" "(t, n) \<in> set cs" "m' = n + 1"
      using counter_incr_entries [OF h] by blast
    then show ?thesis
    proof cases
      case 1
      then have "m' \<le> count_list dn x'" by (rule Cons.prems(1))
      then show ?thesis by simp
    next
      case 2
      then show ?thesis by simp
    next
      case 3
      then have "n \<le> count_list dn t" using Cons.prems(1) by simp
      then show ?thesis using 3 by simp
    qed
  qed
  have "(x, m) \<in> set (fold counter_incr ts (counter_incr t cs))" using Cons.prems(2) by simp
  then have "m \<le> count_list ((dn @ [t]) @ ts) x" using inv Cons.IH by blast
  then show ?case by simp
qed

lemma counter_le_occurrences:
  "(x, m) \<in> set (fold counter_incr ts []) \<Longrightarrow> m \<le> count_list ts x"
  using fold_counter_incr_le [of "[]" "[]" x m ts] by simp

lemma count_list_filter_le: "count_list (filter P xs) x \<le> count_list xs x"
  by (induction xs) auto

lemma count_list_concat_le:
  assumes "\<And>a. a \<in> set as \<Longrightarrow> count_list (f a) x \<le> count_list (g a) x"
  shows "count_list (concat (map f as)) x \<le> count_list (concat (map g as)) x"
  using assms by (induction as) (auto simp: add_mono)

lemma log_terms_raw:
  "log_terms mapped lg =
     (let query = lower (strip (or_empty (le_query lg)))
      in filter (unigram_ok mapped) (split_ws query)
         @ filter (bigram_ok mapped) (bigrams (split_ws query)))"
proof -
  have "map (\<lambda>word. lower (strip word)) (split_ws (lower s)) = split_ws (lower s)" for s
    by (rule map_idI) (rule word_of_lowered(1))
  then show ?thesis by (simp add: log_terms_def Let_def)
qed

lemma accepted_le_raw:
  "count_list (concat (map (log_terms mapped) logs)) x \<le> count_list (raw_terms logs) x"
  unfolding raw_terms_def
  by (rule count_list_concat_le)
     (simp add: log_terms_raw Let_def add_mono count_list_filter_le)

lemma log_terms_unmapped:
  assumes "x \<in> set (log_terms mapped lg)"
  shows "x \<notin> set mapped \<and> lower x = x"
proof -
  let ?q = "lower (strip (or_empty (le_query lg)))"
  from assms consider "x \<in> set (split_ws ?q)" "unigram_ok mapped x"
    | "x \<in> set (bigrams (split_ws ?q))" "bigram_ok mapped x"
    by (auto simp: log_terms_raw Let_def)
  then show ?thesis
  proof cases
    case 1
    then show ?thesis using word_of_lowered(2) by (simp add: unigram_ok_def)
  next
    case 2
    then show ?thesis using bigram_of_lowered by (simp add: bigram_ok_def)
  qed
qed

lemma mapped_terms_mem:
  assumes "(mt, tm) \<in> set em" and "(u, c) \<in> set tm"
  shows "lower u \<in> set (mapped_terms em)" and "lower c \<in> set (mapped_terms em)"
  using assms by (force simp: mapped_terms_def)+

lemma suggestions_from_counter:
  assumes "t \<in> set (generate_terminology_suggestions logs em)"
  shows "(um_term t, um_count t) \<in>
           set (fold counter_incr (concat (map (log_terms (mapped_terms em)) logs)) [])
         \<and> 2 \<le> um_count t"
proof -
  obtain tc te where f: "fold (mine_log (mapped_terms em)) logs ([], []) = (tc, te)"
    by (cases "fold (mine_log (mapped_terms em)) logs ([], [])") auto
  have tc: "tc = fold counter_incr (concat (map (log_terms (mapped_terms em)) logs)) []"
    using fst_fold_mine_log [of "mapped_terms em" logs "([], [])"] f by simp
  let ?mk = "\<lambda>(x, c). \<lparr>um_term = x, um_count = c,
                 example_queries = set (case map_of te x of None \<Rightarrow> [] | Some qs \<Rightarrow> qs)\<rparr>"
  have "t \<in> set (take 50 (map ?mk (filter (\<lambda>(x, c). c \<ge> 2) (most_common 100 tc))))"
    using assms f by (simp add: generate_terminology_suggestions_def Let_def)
  then have "t \<in> set (map ?mk (filter (\<lambda>(x, c). c \<ge> 2) (most_common 100 tc)))"
    by (rule in_set_takeD)
  then obtain x c where xc: "(x, c) \<in> set (most_common 100 tc)" "c \<ge> 2" "t = ?mk (x, c)"
    by auto
  have "(x, c) \<in> set (sort_key (\<lambda>(t, c). - int c) tc)"
    using xc(1) unfolding most_common_def by (rule in_set_takeD)
  then have "(x, c) \<in> set tc" by simp
  then show ?thesis using xc tc by simp
qed

text \<open>
  Claim C7. For every query log and every dictionary of active mappings, a term of the
  list \<open>unmapped_terms\<close> equals, case-insensitively, neither the user term nor the
  canonical term of any mapping; its count is at least 2 and is at most the number of
  its occurrences among the unigrams and bigrams of the raw queries, so it occurred
  there at least twice.
\<close>

theorem mined_terms_unmapped:
  assumes "t \<in> set (generate_terminology_suggestions logs existing_mappings)"
  shows "(\<forall>(mt, type_mappings) \<in> set existing_mappings. \<forall>(u, c) \<in> set type_mappings.
            lower (um_term t) \<noteq> lower u \<and> lower (um_term t) \<noteq> lower c)
    \<and> 2 \<le> um_count t
    \<and> um_count t \<le> count_list (raw_terms logs) (um_term t)"
proof -
  let ?acc = "concat (map (log_terms (mapped_terms existing_mappings)) logs)"
  have m: "(um_term t, um_count t) \<in> set (fold counter_incr ?acc [])" and two: "2 \<le> um_count t"
    using suggestions_from_counter [OF assms] by simp_all
  have le: "um_count t \<le> count_list ?acc (um_term t)"
    using m by (rule counter_le_occurrences)
  then have pos: "0 < count_list ?acc (um_term t)" using two by simp
  have "um_term t \<in> set ?acc"
  proof (rule ccontr)
    assume "um_term t \<notin> set ?acc"
    then have "count_list ?acc (um_term t) = 0"
      using count_list_0_iff [of ?acc "um_term t"] by blast
    then show False using pos by simp
  qed
  then obtain lg where "um_term t \<in> set (log_terms (mapped_terms existing_mappings) lg)"
    by auto
  then have nm: "um_term t \<notin> set (mapped_terms existing_mappings)" and lw: "lower (um_term t) = um_term t"
    using log_terms_unmapped by simp_all
  have a: "\<forall>(mt, type_mappings) \<in> set existing_mappings. \<forall>(u, c) \<in> set type_mappings.
            lower (um_term t) \<noteq> lower u \<and> lower (um_term t) \<noteq> lower c"
    unfolding lw using nm mapped_terms_mem by fastforce
  have "um_count t \<le> count_list (raw_terms logs) (um_term t)"
    using le accepted_le_raw [of "mapped_terms existing_mappings" logs "um_term t"] by simp
  then show ?thesis using a two by simp
qed

lemma mining_example_terms:
  "map um_term (generate_terminology_suggestions mining_logs mining_mappings)
     = [''checklist'', ''fafsa checklist'']"
  by code_simp

text \<open>
  Two queries about a FAFSA checklist with \<open>fafsa\<close> mapped: \<open>checklist\<close> is the
  first mined term.
\<close>

theorem mined_terms_unmapped_witness:
  "hd (generate_terminology_suggestions mining_logs mining_mappings)
      \<in> set (generate_terminology_suggestions mining_logs mining_mappings)
   \<and> um_term (hd (generate_terminology_suggestions mining_logs mining_mappings)) = ''checklist''
   \<and> lower (um_term (hd (generate_terminology_suggestions mining_logs mining_mappings)))
        \<noteq> lower ''fafsa''
   \<and> lower (um_term (hd (generate_terminology_suggestions mining_logs mining_mappings)))
        \<noteq> lower ''FAFSA''
   \<and> 2 \<le> um_count (hd (generate_terminology_suggestions mining_logs mining_mappings))
   \<and> 2 \<le> count_list (raw_terms mining_logs)
             (um_term (hd (generate_terminology_suggestions mining_logs mining_mappings)))"
proof -
  let ?g = "generate_terminology_suggestions mining_logs mining_mappings"
  have ne: "?g \<noteq> []" using mining_example_terms by auto
  then have h: "hd ?g \<in> set ?g" by simp
  have t: "um_term (hd ?g) = ''checklist''"
    using mining_example_terms ne by (simp add: hd_map [symmetric] del: hd_map)
  have m: "(''topic'', [(''fafsa'', ''FAFSA'')]) \<in> set mining_mappings"
    by (simp add: mining_mappings_def)
  note th = mined_terms_unmapped [OF h]
  have a: "lower (um_term (hd ?g)) \<noteq> lower ''fafsa'' \<and> lower (um_term (hd ?g)) \<noteq> lower ''FAFSA''"
    using th m by fastforce
  have b: "2 \<le> um_count (hd ?g)" using th by blast
  have c: "2 \<le> count_list (raw_terms mining_logs) (um_term (hd ?g))" using th by linarith
  show ?thesis using h t a b c by blast
qed

end
